theory Spec2Isabelle
  imports Complex_Main "HOL-Library.Sublist"
begin

section \<open>Data model (types.ts)\<close>

text \<open>
  \<^verbatim>\<open>GraphNode { id: string; group: string; val?: number }\<close>,
  \<^verbatim>\<open>GraphLink { source: string; target: string; relationship: string }\<close> and
  \<^verbatim>\<open>KnowledgeGraphData { nodes: GraphNode[]; links: GraphLink[] }\<close>.
  The field \<open>id\<close> is called \<open>node_id\<close> here, since \<open>id\<close> is HOL's identity function.
  JavaScript numbers are modelled as reals; an absent optional field is \<open>None\<close>.
\<close>

record GraphNode =
  node_id :: string
  group :: string
  val :: "real option"

record GraphLink =
  source :: string
  target :: string
  relationship :: string

record KnowledgeGraphData =
  nodes :: "GraphNode list"
  links :: "GraphLink list"

section \<open>JavaScript's Map, as the merge uses it\<close>

text \<open>
  A \<^verbatim>\<open>Map\<close> keeps its entries in insertion order; \<^verbatim>\<open>set\<close> on a key that is present
  replaces the value in place, and on a new key appends the entry. \<^verbatim>\<open>new Map(entries)\<close>
  performs \<^verbatim>\<open>set\<close> for each entry in turn, \<^verbatim>\<open>values()\<close> iterates in insertion order.
\<close>

type_synonym ('k, 'v) js_map = "('k \<times> 'v) list"

definition Map_has :: "('k, 'v) js_map \<Rightarrow> 'k \<Rightarrow> bool" where
  "Map_has m k = (k \<in> set (map fst m))"

fun Map_set :: "('k, 'v) js_map \<Rightarrow> 'k \<Rightarrow> 'v \<Rightarrow> ('k, 'v) js_map" where
  "Map_set [] k v = [(k, v)]"
| "Map_set (e # m) k v = (if fst e = k then (k, v) # m else e # Map_set m k v)"

definition Map_new :: "('k \<times> 'v) list \<Rightarrow> ('k, 'v) js_map" where
  "Map_new entries = foldl (\<lambda>m e. Map_set m (fst e) (snd e)) [] entries"

definition Map_values :: "('k, 'v) js_map \<Rightarrow> 'v list" where
  "Map_values m = map snd m"

section \<open>updateGraph (App.tsx)\<close>

text \<open>
  \<^verbatim>\<open>String.prototype.toLowerCase\<close> is a built-in of the language; the merge is modelled
  for an arbitrary function \<open>lower\<close> in its place. \<open>toLowerCase\<close> below is its action on
  ASCII text, used where a concrete run of the merge is evaluated.
\<close>

definition toLowerCase_char :: "char \<Rightarrow> char" where
  "toLowerCase_char c =
     (let n = (of_char c :: nat) in if 65 \<le> n \<and> n \<le> 90 then char_of (n + 32) else c)"

definition toLowerCase :: "string \<Rightarrow> string" where
  "toLowerCase s = map toLowerCase_char s"

text \<open>
  \<^verbatim>\<open>newNodes.forEach(node => { if (!nodeMap.has(node.id.toLowerCase()))
       nodeMap.set(node.id.toLowerCase(), { ...node, val: 5 }); })\<close>
\<close>

definition add_node ::
  "(string \<Rightarrow> string) \<Rightarrow> (string, GraphNode) js_map \<Rightarrow> GraphNode \<Rightarrow> (string, GraphNode) js_map"
where
  "add_node lower nodeMap node =
     (if \<not> Map_has nodeMap (lower (node_id node))
      then Map_set nodeMap (lower (node_id node)) (node\<lparr>val := Some 5\<rparr>)
      else nodeMap)"

text \<open>The template literal \<^verbatim>\<open>`${l.source}-${l.target}-${l.relationship}`\<close>.\<close>

definition link_key :: "GraphLink \<Rightarrow> string" where
  "link_key l = source l @ ''-'' @ target l @ ''-'' @ relationship l"

text \<open>
  \<^verbatim>\<open>newLinks.forEach(link => { const key = ...; if (!linkSet.has(key)) {
       if (nodeMap.has(link.source.toLowerCase()) && nodeMap.has(link.target.toLowerCase())) {
         finalLinks.push(link); linkSet.add(key); } } })\<close>
  The loop state is the pair \<open>(finalLinks, linkSet)\<close>.
\<close>

definition add_link ::
  "(string \<Rightarrow> string) \<Rightarrow> (string, GraphNode) js_map \<Rightarrow> GraphLink list \<times> string set
     \<Rightarrow> GraphLink \<Rightarrow> GraphLink list \<times> string set"
where
  "add_link lower nodeMap st link =
     (let finalLinks = fst st; linkSet = snd st; key = link_key link in
      if key \<notin> linkSet then
        (if Map_has nodeMap (lower (source link)) \<and> Map_has nodeMap (lower (target link))
         then (finalLinks @ [link], insert key linkSet)
         else (finalLinks, linkSet))
      else (finalLinks, linkSet))"

definition updateGraph ::
  "(string \<Rightarrow> string) \<Rightarrow> KnowledgeGraphData \<Rightarrow> GraphNode list \<Rightarrow> GraphLink list
     \<Rightarrow> KnowledgeGraphData"
where
  "updateGraph lower prev newNodes newLinks =
     (let nodeMap = foldl (add_node lower)
                      (Map_new (map (\<lambda>n. (lower (node_id n), n)) (nodes prev))) newNodes;
          linkSet = set (map link_key (links prev));
          finalLinks = fst (foldl (add_link lower nodeMap) (links prev, linkSet) newLinks)
      in \<lparr>nodes = Map_values nodeMap, links = finalLinks\<rparr>)"

text \<open>The triple that identifies a link, and the initial graph of the application.\<close>

definition link_triple :: "GraphLink \<Rightarrow> string \<times> string \<times> string" where
  "link_triple l = (source l, target l, relationship l)"

definition INITIAL_DATA :: KnowledgeGraphData where
  "INITIAL_DATA =
     \<lparr>nodes =
        [\<lparr>node_id = ''Artificial Intelligence'', group = ''Technology'', val = Some 8\<rparr>,
         \<lparr>node_id = ''Machine Learning'', group = ''Technology'', val = Some 5\<rparr>,
         \<lparr>node_id = ''Neural Networks'', group = ''Concept'', val = Some 4\<rparr>,
         \<lparr>node_id = ''Healthcare'', group = ''Industry'', val = Some 6\<rparr>,
         \<lparr>node_id = ''Diagnostics'', group = ''Application'', val = Some 4\<rparr>,
         \<lparr>node_id = ''Privacy'', group = ''Regulation'', val = Some 5\<rparr>,
         \<lparr>node_id = ''GDPR'', group = ''Regulation'', val = Some 4\<rparr>],
      links =
        [\<lparr>source = ''Artificial Intelligence'', target = ''Machine Learning'',
          relationship = ''includes''\<rparr>,
         \<lparr>source = ''Machine Learning'', target = ''Neural Networks'', relationship = ''uses''\<rparr>,
         \<lparr>source = ''Artificial Intelligence'', target = ''Healthcare'',
          relationship = ''transforms''\<rparr>,
         \<lparr>source = ''Healthcare'', target = ''Diagnostics'', relationship = ''requires''\<rparr>,
         \<lparr>source = ''Artificial Intelligence'', target = ''Privacy'', relationship = ''impacts''\<rparr>,
         \<lparr>source = ''Privacy'', target = ''GDPR'', relationship = ''governed by''\<rparr>]\<rparr>"

text \<open>
  The graph is React state of \<^verbatim>\<open>App\<close>: \<^verbatim>\<open>useState<KnowledgeGraphData>(INITIAL_DATA)\<close>, and
  its only setter call is \<^verbatim>\<open>setGraphData(prev => ...)\<close> inside \<^verbatim>\<open>updateGraph\<close>. So the previous
  graph of a call is \<open>INITIAL_DATA\<close> merged with the proposals of the calls before it, each
  call a pair \<open>(newNodes, newLinks)\<close>.
\<close>

definition graphData_after ::
  "(string \<Rightarrow> string) \<Rightarrow> (GraphNode list \<times> GraphLink list) list \<Rightarrow> KnowledgeGraphData"
where
  "graphData_after lower calls =
     foldl (\<lambda>prev call. updateGraph lower prev (fst call) (snd call)) INITIAL_DATA calls"

text \<open>
  Every key of the node map is the lowered identifier of the node stored under it.
\<close>

definition keyed :: "(string \<Rightarrow> string) \<Rightarrow> (string, GraphNode) js_map \<Rightarrow> bool" where
  "keyed lower m = (\<forall>e \<in> set m. fst e = lower (node_id (snd e)))"

text \<open>Small graphs on which the merge is run below.\<close>

definition AI_graph :: KnowledgeGraphData where
  "AI_graph = \<lparr>nodes = [\<lparr>node_id = ''AI'', group = ''Technology'', val = None\<rparr>], links = []\<rparr>"

definition ai_link :: GraphLink where
  "ai_link = \<lparr>source = ''ai'', target = ''AI'', relationship = ''is''\<rparr>"

definition clash_graph :: KnowledgeGraphData where
  "clash_graph =
     \<lparr>nodes = [\<lparr>node_id = ''AI'', group = ''Technology'', val = None\<rparr>,
               \<lparr>node_id = ''ai'', group = ''Technology'', val = None\<rparr>],
      links = []\<rparr>"

definition ethics_nodes :: "GraphNode list" where
  "ethics_nodes =
     [\<lparr>node_id = ''gdpr'', group = ''Law'', val = None\<rparr>,
      \<lparr>node_id = ''Ethics'', group = ''Concept'', val = None\<rparr>]"

definition ethics_links :: "GraphLink list" where
  "ethics_links = [\<lparr>source = ''ethics'', target = ''GDPR'', relationship = ''informs''\<rparr>]"

section \<open>The force-directed view (GraphVisualization)\<close>

subsection \<open>Records the effect owns\<close>

text \<open>
  \<^verbatim>\<open>const nodes = data.nodes.map(d => ({ ...d }))\<close> copies every field of a node; the
  simulation then adds \<open>index\<close>, the position \<open>x, y\<close>, the velocity \<open>vx, vy\<close> and, while a
  node is dragged, the pin \<open>fx, fy\<close> (absent or \<^verbatim>\<open>null\<close> is \<open>None\<close>).
  \<^verbatim>\<open>const links = data.links.map(d => ({ ...d }))\<close> copies a link; the link force replaces
  the identifiers in \<open>source\<close> and \<open>target\<close> by references to node records, modelled as
  positions in the \<open>nodes\<close> array, and adds \<open>index\<close>.
\<close>

record SimNode = GraphNode +
  index :: nat
  x :: real
  y :: real
  vx :: real
  vy :: real
  fx :: "real option"
  fy :: "real option"

record SimLink =
  source_node :: nat
  target_node :: nat
  link_relationship :: string
  link_index :: nat

subsection \<open>What the d3 library contributes\<close>

text \<open>
  d3 is a dependency, not part of the repository. Its control behaviour is modelled below
  as its documentation gives it; its numeric part is a parameter:
  \<^item> \<open>initial_position i\<close>: where \<^verbatim>\<open>forceSimulation\<close> seeds the \<open>i\<close>-th node that has no
    position yet (a function of the index only);
  \<^item> \<open>forces\<close>: what the registered forces (link, charge, center, collide) do in one tick:
    given the state of the simulation's pseudo-random source, the current \<open>alpha\<close>, the
    centering target, the links and the nodes, the position and velocity \<open>(x, y, vx, vy)\<close>
    they leave for the node at a position of the array. The forces write positions and
    velocities only;
  \<^item> \<open>next_random\<close>: the state of the pseudo-random source after the forces of a tick
    have drawn from it;
  \<^item> \<open>alphaDecay\<close>: the cooling rate.
\<close>

record d3 =
  initial_position :: "nat \<Rightarrow> real \<times> real"
  forces :: "nat \<Rightarrow> real \<Rightarrow> real \<times> real \<Rightarrow> SimLink list \<Rightarrow> SimNode list \<Rightarrow> nat
               \<Rightarrow> real \<times> real \<times> real \<times> real"
  next_random :: "nat \<Rightarrow> real \<Rightarrow> real \<times> real \<Rightarrow> SimLink list \<Rightarrow> SimNode list \<Rightarrow> nat"
  alphaDecay :: real

definition alphaMin :: real where
  "alphaMin = 0.001"

definition velocityDecay :: real where
  "velocityDecay = 0.6"

text \<open>
  The error \<^verbatim>\<open>forceLink\<close> throws when an identifier names no node, with the identifier.
\<close>

datatype error = NodeNotFound string

subsection \<open>Rendered primitives\<close>

text \<open>
  One \<^verbatim>\<open>line\<close> and one \<^verbatim>\<open>text\<close> per link, one \<^verbatim>\<open>circle\<close> and one \<^verbatim>\<open>text\<close> per node,
  joined to the arrays in order. Only the attributes the properties below speak of are kept;
  a coordinate attribute is \<open>None\<close> until the first tick sets it.
\<close>

record Line =
  x1 :: "real option"
  y1 :: "real option"
  x2 :: "real option"
  y2 :: "real option"

record LinkLabel =
  linkLabel_text :: string
  linkLabel_x :: "real option"
  linkLabel_y :: "real option"

record Circle =
  circle_r :: real
  fill :: string
  cx :: "real option"
  cy :: "real option"

record Label =
  dx :: real
  dy :: string
  label_text :: string
  label_x :: "real option"
  label_y :: "real option"

subsection \<open>One run of the simulation effect\<close>

text \<open>
  What one run of the effect creates and its closures share: the \<open>nodes\<close> and \<open>links\<close>
  arrays, the simulation (its forces, \<open>alpha\<close>, \<open>alphaTarget\<close>, the state of its
  pseudo-random source, whether its timer is active, whether a tick listener is registered)
  and the four selections.
  \<open>centering = None\<close> until the forces are registered; afterwards it holds the target of
  \<^verbatim>\<open>forceCenter(width / 2, height / 2)\<close>.
\<close>

record Engine =
  sim_nodes :: "SimNode list"
  sim_links :: "SimLink list"
  centering :: "(real \<times> real) option"
  alpha :: real
  alphaTarget :: real
  random_state :: nat
  running :: bool
  tick_listener :: bool
  link_sel :: "Line list"
  linkLabel_sel :: "LinkLabel list"
  node_sel :: "Circle list"
  label_sel :: "Label list"

text \<open>
  \<^verbatim>\<open>d3.forceSimulation(nodes)\<close>: every node gets its index, a seeded position (the copies
  carry none) and zero velocity; \<open>alpha\<close> is 1, \<open>alphaTarget\<close> is 0, and the timer is started.
\<close>

definition seed_node :: "d3 \<Rightarrow> nat \<Rightarrow> GraphNode \<Rightarrow> SimNode" where
  "seed_node lib i d =
     \<lparr>node_id = node_id d, group = group d, val = val d,
      index = i, x = fst (initial_position lib i), y = snd (initial_position lib i),
      vx = 0, vy = 0, fx = None, fy = None\<rparr>"

definition forceSimulation :: "d3 \<Rightarrow> GraphNode list \<Rightarrow> Engine" where
  "forceSimulation lib ds =
     \<lparr>sim_nodes = map (\<lambda>(i, d). seed_node lib i d) (enumerate 0 ds),
      sim_links = [], centering = None, alpha = 1, alphaTarget = 0, random_state = 1,
      running = True,
      tick_listener = False, link_sel = [], linkLabel_sel = [], node_sel = [], label_sel = []\<rparr>"

text \<open>
  \<^verbatim>\<open>d3.forceLink(links).id(d => d.id)\<close>, when it is registered with the simulation: a map
  from identifier to node is built (a later node with the same identifier replaces an
  earlier one), and each link in turn has its source, then its target, looked up; an
  identifier that is not a key throws. Nothing in the component validates the links before.
\<close>

definition Map_get :: "('k, 'v) js_map \<Rightarrow> 'k \<Rightarrow> 'v option" where
  "Map_get m k = map_of m k"

definition find :: "(string, nat) js_map \<Rightarrow> string \<Rightarrow> error + nat" where
  "find nodeById nodeId =
     (case Map_get nodeById nodeId of None \<Rightarrow> Inl (NodeNotFound nodeId) | Some i \<Rightarrow> Inr i)"

fun resolve_links :: "(string, nat) js_map \<Rightarrow> nat \<Rightarrow> GraphLink list \<Rightarrow> error + SimLink list" where
  "resolve_links nodeById i [] = Inr []"
| "resolve_links nodeById i (d # ds) =
     (case find nodeById (source d) of
        Inl err \<Rightarrow> Inl err
      | Inr s \<Rightarrow>
          (case find nodeById (target d) of
             Inl err \<Rightarrow> Inl err
           | Inr t \<Rightarrow>
               (case resolve_links nodeById (Suc i) ds of
                  Inl err \<Rightarrow> Inl err
                | Inr ls \<Rightarrow>
                    Inr (\<lparr>source_node = s, target_node = t,
                          link_relationship = relationship d, link_index = i\<rparr> # ls))))"

definition forceLink_initialize :: "SimNode list \<Rightarrow> GraphLink list \<Rightarrow> error + SimLink list" where
  "forceLink_initialize ns ds =
     resolve_links (Map_new (map (\<lambda>d. (node_id d, index d)) ns)) 0 ds"

text \<open>
  \<^verbatim>\<open>const color = d3.scaleOrdinal(d3.schemeCategory10)\<close>: an ordinal scale with an implicit
  domain. Its state is the domain, empty at creation; a value not yet in the domain is
  appended to it, and the value at position \<open>i\<close> of the domain maps to the colour at
  position \<open>i mod 10\<close> of the palette.
\<close>

definition schemeCategory10 :: "string list" where
  "schemeCategory10 =
     [''#1f77b4'', ''#ff7f0e'', ''#2ca02c'', ''#d62728'', ''#9467bd'',
      ''#8c564b'', ''#e377c2'', ''#7f7f7f'', ''#bcbd22'', ''#17becf'']"

fun position_of :: "'a list \<Rightarrow> 'a \<Rightarrow> nat" where
  "position_of [] v = 0"
| "position_of (u # us) v = (if u = v then 0 else Suc (position_of us v))"

definition color :: "string list \<Rightarrow> string \<Rightarrow> string \<times> string list" where
  "color domain v =
     (if v \<in> set domain
      then (schemeCategory10 ! (position_of domain v mod length schemeCategory10), domain)
      else (schemeCategory10 ! (length domain mod length schemeCategory10), domain @ [v]))"

text \<open>
  The selections, as created: \<^verbatim>\<open>.attr("r", 8).attr("fill", d => color(d.group))\<close> for the
  circles, evaluated node by node in array order, so the scale's domain is threaded through;
  \<^verbatim>\<open>.attr("dx", 12).attr("dy", ".35em").text(d => d.id)\<close> for the node labels;
  \<^verbatim>\<open>.text(d => d.relationship)\<close> for the link labels.
\<close>

fun node_circles :: "string list \<Rightarrow> SimNode list \<Rightarrow> Circle list" where
  "node_circles domain [] = []"
| "node_circles domain (d # ds) =
     \<lparr>circle_r = 8, fill = fst (color domain (group d)), cx = None, cy = None\<rparr>
       # node_circles (snd (color domain (group d))) ds"

definition link_lines :: "SimLink list \<Rightarrow> Line list" where
  "link_lines ls = map (\<lambda>d. \<lparr>x1 = None, y1 = None, x2 = None, y2 = None\<rparr>) ls"

definition link_labels :: "SimLink list \<Rightarrow> LinkLabel list" where
  "link_labels ls =
     map (\<lambda>d. \<lparr>linkLabel_text = link_relationship d, linkLabel_x = None, linkLabel_y = None\<rparr>) ls"

definition node_labels :: "SimNode list \<Rightarrow> Label list" where
  "node_labels ns =
     map (\<lambda>d. \<lparr>dx = 12, dy = ''.35em'', label_text = node_id d,
               label_x = None, label_y = None\<rparr>) ns"

text \<open>
  The rest of the effect body once the links are resolved: the four forces are registered
  (the centering force at half the width and half the height), the selections are created
  and the tick listener is registered.
\<close>

definition register_and_draw :: "real \<times> real \<Rightarrow> SimLink list \<Rightarrow> Engine \<Rightarrow> Engine" where
  "register_and_draw dimensions ls sim =
     sim\<lparr>sim_links := ls,
         centering := Some (fst dimensions / 2, snd dimensions / 2),
         link_sel := link_lines ls,
         linkLabel_sel := link_labels ls,
         node_sel := node_circles [] (sim_nodes sim),
         label_sel := node_labels (sim_nodes sim),
         tick_listener := True\<rparr>"

subsection \<open>Ticks\<close>

text \<open>
  The tick listener of the effect:
  \<^verbatim>\<open>link.attr("x1", d => d.source.x) ... linkLabel.attr("x", d => (d.source.x + d.target.x) / 2)
  ... node.attr("cx", d => d.x) ... label.attr("x", d => d.x) ...\<close>
\<close>

definition ticked :: "Engine \<Rightarrow> Engine" where
  "ticked e =
     e\<lparr>link_sel :=
         map2 (\<lambda>p d. p\<lparr>x1 := Some (x (sim_nodes e ! source_node d)),
                        y1 := Some (y (sim_nodes e ! source_node d)),
                        x2 := Some (x (sim_nodes e ! target_node d)),
                        y2 := Some (y (sim_nodes e ! target_node d))\<rparr>)
           (link_sel e) (sim_links e),
       linkLabel_sel :=
         map2 (\<lambda>p d. p\<lparr>linkLabel_x :=
                          Some ((x (sim_nodes e ! source_node d)
                                 + x (sim_nodes e ! target_node d)) / 2),
                        linkLabel_y :=
                          Some ((y (sim_nodes e ! source_node d)
                                 + y (sim_nodes e ! target_node d)) / 2)\<rparr>)
           (linkLabel_sel e) (sim_links e),
       node_sel :=
         map2 (\<lambda>p d. p\<lparr>cx := Some (x d), cy := Some (y d)\<rparr>) (node_sel e) (sim_nodes e),
       label_sel :=
         map2 (\<lambda>p d. p\<lparr>label_x := Some (x d), label_y := Some (y d)\<rparr>)
           (label_sel e) (sim_nodes e)\<rparr>"

text \<open>
  One tick of the simulation, as d3 documents it: \<open>alpha\<close> moves towards \<open>alphaTarget\<close>,
  the registered forces are applied, then every node is integrated:
  \<^verbatim>\<open>if (node.fx == null) node.x += node.vx *= velocityDecay; else node.x = node.fx, node.vx = 0;\<close>
  and the same for \<open>y\<close>.
\<close>

definition apply_forces :: "d3 \<Rightarrow> real \<Rightarrow> Engine \<Rightarrow> SimNode list" where
  "apply_forces lib a e =
     (case centering e of
        None \<Rightarrow> sim_nodes e
      | Some c \<Rightarrow>
          map (\<lambda>(i, d).
                 (case forces lib (random_state e) a c (sim_links e) (sim_nodes e) i of
                    (px, py, pvx, pvy) \<Rightarrow> d\<lparr>x := px, y := py, vx := pvx, vy := pvy\<rparr>))
            (enumerate 0 (sim_nodes e)))"

definition integrate_x :: "SimNode \<Rightarrow> SimNode" where
  "integrate_x d =
     (case fx d of
        None \<Rightarrow> d\<lparr>vx := vx d * velocityDecay, x := x d + vx d * velocityDecay\<rparr>
      | Some p \<Rightarrow> d\<lparr>x := p, vx := 0\<rparr>)"

definition integrate_y :: "SimNode \<Rightarrow> SimNode" where
  "integrate_y d =
     (case fy d of
        None \<Rightarrow> d\<lparr>vy := vy d * velocityDecay, y := y d + vy d * velocityDecay\<rparr>
      | Some p \<Rightarrow> d\<lparr>y := p, vy := 0\<rparr>)"

definition tick :: "d3 \<Rightarrow> Engine \<Rightarrow> Engine" where
  "tick lib e =
     (let a = alpha e + (alphaTarget e - alpha e) * alphaDecay lib in
      e\<lparr>alpha := a,
        random_state :=
          (case centering e of
             None \<Rightarrow> random_state e
           | Some c \<Rightarrow> next_random lib (random_state e) a c (sim_links e) (sim_nodes e)),
        sim_nodes := map (\<lambda>d. integrate_y (integrate_x d)) (apply_forces lib a e)\<rparr>)"

text \<open>
  The timer callback of the simulation:
  \<^verbatim>\<open>tick(); event.call("tick", simulation); if (alpha < alphaMin) stepper.stop();\<close>
  The timer invokes it on an animation frame only while it is active; \<^verbatim>\<open>simulation.stop()\<close>
  deactivates the timer and \<^verbatim>\<open>simulation.restart()\<close> activates it.
\<close>

definition step :: "d3 \<Rightarrow> Engine \<Rightarrow> Engine" where
  "step lib e =
     (let e1 = tick lib e;
          e2 = (if tick_listener e1 then ticked e1 else e1)
      in if alpha e2 < alphaMin then e2\<lparr>running := False\<rparr> else e2)"

definition frame :: "d3 \<Rightarrow> Engine \<Rightarrow> Engine" where
  "frame lib e = (if running e then step lib e else e)"

definition stop :: "Engine \<Rightarrow> Engine" where
  "stop e = e\<lparr>running := False\<rparr>"

subsection \<open>Drag handlers\<close>

text \<open>
  The handlers receive the datum \<open>d\<close> of the circle, the node record at position \<open>i\<close> of
  \<open>nodes\<close> (a circle exists for each position, so \<open>i\<close> is in range), and the event;
  \<open>event.active\<close> is the number of other drag gestures in progress.
  \<^verbatim>\<open>function dragstarted(event, d) { if (!event.active) simulation.alphaTarget(0.3).restart();
       d.fx = d.x; d.fy = d.y; }\<close>
  \<^verbatim>\<open>function dragged(event, d) { d.fx = event.x; d.fy = event.y; }\<close>
  \<^verbatim>\<open>function dragended(event, d) { if (!event.active) simulation.alphaTarget(0);
       d.fx = null; d.fy = null; }\<close>
\<close>

definition dragstarted :: "nat \<Rightarrow> nat \<Rightarrow> Engine \<Rightarrow> Engine" where
  "dragstarted active i e =
     (let e1 = (if active = 0 then e\<lparr>alphaTarget := 0.3, running := True\<rparr> else e) in
      e1\<lparr>sim_nodes := (sim_nodes e1)[i := (sim_nodes e1 ! i)
            \<lparr>fx := Some (x (sim_nodes e1 ! i)), fy := Some (y (sim_nodes e1 ! i))\<rparr>]\<rparr>)"

definition dragged :: "real \<times> real \<Rightarrow> nat \<Rightarrow> Engine \<Rightarrow> Engine" where
  "dragged pointer i e =
     e\<lparr>sim_nodes := (sim_nodes e)[i := (sim_nodes e ! i)
          \<lparr>fx := Some (fst pointer), fy := Some (snd pointer)\<rparr>]\<rparr>"

definition dragended :: "nat \<Rightarrow> nat \<Rightarrow> Engine \<Rightarrow> Engine" where
  "dragended active i e =
     (let e1 = (if active = 0 then e\<lparr>alphaTarget := 0\<rparr> else e) in
      e1\<lparr>sim_nodes := (sim_nodes e1)[i := (sim_nodes e1 ! i)\<lparr>fx := None, fy := None\<rparr>]\<rparr>)"

text \<open>What reaches a simulation while its effect run is live, and a run of such inputs.\<close>

datatype input =
  AnimationFrame
  | DragStart nat nat
  | DragMove "real \<times> real" nat
  | DragEnd nat nat

fun handle :: "d3 \<Rightarrow> Engine \<Rightarrow> input \<Rightarrow> Engine" where
  "handle lib e AnimationFrame = frame lib e"
| "handle lib e (DragStart active i) = dragstarted active i e"
| "handle lib e (DragMove pointer i) = dragged pointer i e"
| "handle lib e (DragEnd active i) = dragended active i e"

text \<open>
  Where \<open>event.active\<close> comes from. The drag behaviour \<^verbatim>\<open>d3.drag()\<close>, created once per effect
  run, counts the gestures in progress: a start event carries the count before the new
  gesture (\<^verbatim>\<open>n = active++\<close>), an end event the count after the gesture has ended
  (\<^verbatim>\<open>--active, n = active\<close>), and drag and end events are dispatched only for a gesture that
  has started. A behaviour is the count with the simulation its handlers act on; it starts
  at count 0.
\<close>

datatype pointer =
  PointerDown nat
  | PointerMove "real \<times> real" nat
  | PointerUp nat
  | TimerFrame

fun drag_event :: "d3 \<Rightarrow> nat \<times> Engine \<Rightarrow> pointer \<Rightarrow> nat \<times> Engine" where
  "drag_event lib (n, e) (PointerDown i) = (Suc n, dragstarted n i e)"
| "drag_event lib (n, e) (PointerMove p i) = (if n = 0 then (n, e) else (n, dragged p i e))"
| "drag_event lib (n, e) (PointerUp i) =
     (case n of 0 \<Rightarrow> (n, e) | Suc m \<Rightarrow> (m, dragended m i e))"
| "drag_event lib (n, e) TimerFrame = (n, frame lib e)"

definition drag_events :: "d3 \<Rightarrow> Engine \<Rightarrow> pointer list \<Rightarrow> nat \<times> Engine" where
  "drag_events lib e events = foldl (drag_event lib) (0, e) events"

subsection \<open>The component\<close>

text \<open>
  The component's props and state, and what the effect with dependency list
  \<^verbatim>\<open>[data, dimensions]\<close> leaves behind: every simulation created so far (d3's timers keep
  stepping those that are active), the simulation that the registered cleanup function will
  stop, and the run whose primitives are the children of the \<^verbatim>\<open>svg\<close> element (\<open>None\<close> when
  it has none).
\<close>

record Component =
  data :: KnowledgeGraphData
  dimensions :: "real \<times> real"
  svgRef :: bool
  simulations :: "Engine list"
  cleanup :: "nat option"
  svg :: "nat option"

datatype outcome = Returned Component | Threw error Component

definition state_of :: "outcome \<Rightarrow> Component" where
  "state_of r = (case r of Returned c \<Rightarrow> c | Threw err c \<Rightarrow> c)"

text \<open>
  The effect body. The guard returns before anything is touched. Otherwise the children of
  the \<^verbatim>\<open>svg\<close> are removed, the arrays are copied and the simulation is created; registering
  the link force throws on an unknown identifier, which leaves the created simulation
  behind with no force, no listener and no cleanup.
\<close>

definition run_effect :: "d3 \<Rightarrow> Component \<Rightarrow> outcome" where
  "run_effect lib c =
     (if nodes (data c) = [] \<or> \<not> svgRef c then Returned c
      else
        (let sim = forceSimulation lib (nodes (data c));
             k = length (simulations c)
         in case forceLink_initialize (sim_nodes sim) (links (data c)) of
              Inl err \<Rightarrow> Threw err (c\<lparr>simulations := simulations c @ [sim], svg := None\<rparr>)
            | Inr ls \<Rightarrow>
                Returned (c\<lparr>simulations := simulations c @ [register_and_draw (dimensions c) ls sim],
                           cleanup := Some k, svg := Some k\<rparr>)))"

text \<open>The cleanup \<^verbatim>\<open>() => { simulation.stop(); }\<close>, run once if one is registered.\<close>

definition run_cleanup :: "Component \<Rightarrow> Component" where
  "run_cleanup c =
     (case cleanup c of
        None \<Rightarrow> c
      | Some k \<Rightarrow> c\<lparr>simulations := (simulations c)[k := stop (simulations c ! k)],
                     cleanup := None\<rparr>)"

text \<open>
  Mounting renders with the initial state \<^verbatim>\<open>{ width: 800, height: 600 }\<close>. A change of
  \<open>dimensions\<close> (Resize) or of \<open>data\<close> (snapshot replacement) changes a dependency: the
  registered cleanup runs, then the effect body. Unmounting runs the cleanup. An animation
  frame reaches every simulation created so far.
\<close>

definition first_render :: "KnowledgeGraphData \<Rightarrow> Component" where
  "first_render d =
     \<lparr>data = d, dimensions = (800, 600), svgRef = True,
      simulations = [], cleanup = None, svg = None\<rparr>"

definition Mount :: "d3 \<Rightarrow> KnowledgeGraphData \<Rightarrow> outcome" where
  "Mount lib d = run_effect lib (first_render d)"

definition Resize :: "d3 \<Rightarrow> real \<times> real \<Rightarrow> Component \<Rightarrow> outcome" where
  "Resize lib newViewport c = run_effect lib (run_cleanup (c\<lparr>dimensions := newViewport\<rparr>))"

definition Replace :: "d3 \<Rightarrow> KnowledgeGraphData \<Rightarrow> Component \<Rightarrow> outcome" where
  "Replace lib snapshot c = run_effect lib (run_cleanup (c\<lparr>data := snapshot\<rparr>))"

definition Unmount :: "Component \<Rightarrow> Component" where
  "Unmount c = (run_cleanup c)\<lparr>svgRef := False, svg := None\<rparr>"

definition animation_frame :: "d3 \<Rightarrow> Component \<Rightarrow> Component" where
  "animation_frame lib c = c\<lparr>simulations := map (frame lib) (simulations c)\<rparr>"

subsection \<open>Pointer events, and what the properties below speak of\<close>

text \<open>
  A drag event on a circle reaches the handlers of the run that drew the circles in the
  \<^verbatim>\<open>svg\<close>.
\<close>

definition deliver :: "d3 \<Rightarrow> input \<Rightarrow> Component \<Rightarrow> Component" where
  "deliver lib ev c =
     (case svg c of
        None \<Rightarrow> c
      | Some k \<Rightarrow> c\<lparr>simulations := (simulations c)[k := handle lib (simulations c ! k) ev]\<rparr>)"

text \<open>
  The positions of the nodes of the simulation whose effect run is live, and the property
  that every link of a simulation refers to a node record of its \<open>nodes\<close> array.
\<close>

definition active_positions :: "Component \<Rightarrow> (real \<times> real) list" where
  "active_positions c =
     (case cleanup c of
        None \<Rightarrow> []
      | Some k \<Rightarrow> map (\<lambda>d. (x d, y d)) (sim_nodes (simulations c ! k)))"

definition resolved :: "Engine \<Rightarrow> bool" where
  "resolved e =
     (\<forall>d \<in> set (sim_links e).
        source_node d < length (sim_nodes e) \<and> target_node d < length (sim_nodes e))"

subsection \<open>A concrete library and small runs\<close>

text \<open>
  For runs on concrete inputs the parameters are fixed as follows: the seeding is the
  phyllotaxis arrangement d3 documents, the cooling rate is d3's default, and the forces
  leave every node and the random source as they are (the runs below do not depend on what
  the forces do).
\<close>

definition phyllotaxis :: "nat \<Rightarrow> real \<times> real" where
  "phyllotaxis i =
     (10 * sqrt (0.5 + real i) * cos (real i * (pi * (3 - sqrt 5))),
      10 * sqrt (0.5 + real i) * sin (real i * (pi * (3 - sqrt 5))))"

definition d3_unforced :: d3 where
  "d3_unforced =
     \<lparr>initial_position = phyllotaxis,
      forces = (\<lambda>s a c ls ns i. (x (ns ! i), y (ns ! i), vx (ns ! i), vy (ns ! i))),
      next_random = (\<lambda>s a c ls ns. s),
      alphaDecay = 0.0228\<rparr>"

definition two_nodes :: KnowledgeGraphData where
  "two_nodes =
     \<lparr>nodes = [\<lparr>node_id = ''A'', group = ''G1'', val = None\<rparr>,
               \<lparr>node_id = ''B'', group = ''G2'', val = None\<rparr>],
      links = [\<lparr>source = ''A'', target = ''B'', relationship = ''to''\<rparr>]\<rparr>"

definition dangling :: KnowledgeGraphData where
  "dangling =
     \<lparr>nodes = [\<lparr>node_id = ''A'', group = ''G1'', val = None\<rparr>],
      links = [\<lparr>source = ''A'', target = ''Nonexistent'', relationship = ''to''\<rparr>]\<rparr>"

definition no_nodes :: KnowledgeGraphData where
  "no_nodes = \<lparr>nodes = [], links = []\<rparr>"

text \<open>
  The component mounted on \<open>two_nodes\<close>; its simulation; the same after the first node was
  dragged to \<open>(50, 60)\<close> and a frame went by; the simulation with the first node pinned;
  and the simulation while two fingers each hold a node.
\<close>

definition mounted :: Component where
  "mounted = state_of (Mount d3_unforced two_nodes)"

definition dragged_away :: Component where
  "dragged_away =
     animation_frame d3_unforced
       (deliver d3_unforced (DragMove (50, 60) 0)
          (deliver d3_unforced (DragStart 0 0) mounted))"

definition first_simulation :: Engine where
  "first_simulation = simulations mounted ! 0"

definition pinned_simulation :: Engine where
  "pinned_simulation = dragged (50, 60) 0 (dragstarted 0 0 first_simulation)"

definition two_fingers :: Engine where
  "two_fingers = dragstarted 1 1 (dragstarted 0 0 first_simulation)"

text \<open>
  The simulation of \<open>mounted\<close> after a frame, a drag of the first node to \<open>(50, 60)\<close>,
  another frame, and one more step.
\<close>

definition after_drag :: Engine where
  "after_drag =
     step d3_unforced
       (foldl (handle d3_unforced) first_simulation
          [AnimationFrame, DragStart 0 0, DragMove (50, 60) 0, AnimationFrame])"

text \<open>
  The domain of the scale \<open>color\<close> after it was called on the values in turn: the sequence
  of distinct values encountered, in the order of their first encounter.
\<close>

fun encounter :: "string list \<Rightarrow> string list \<Rightarrow> string list" where
  "encounter domain [] = domain"
| "encounter domain (v # vs) = encounter (snd (color domain v)) vs"

text \<open>
  The selections of a run stay joined to its arrays: one primitive per link and per node,
  every link resolved, the tick listener registered, and the offset attributes of the node
  labels as created.
\<close>

definition joined :: "Engine \<Rightarrow> bool" where
  "joined e =
     (tick_listener e \<and> resolved e \<and>
      length (link_sel e) = length (sim_links e) \<and>
      length (linkLabel_sel e) = length (sim_links e) \<and>
      length (node_sel e) = length (sim_nodes e) \<and>
      length (label_sel e) = length (sim_nodes e) \<and>
      list_all (\<lambda>p. dx p = 12 \<and> dy p = ''.35em'') (label_sel e))"

text \<open>
  What a tick leaves on the screen: every line runs from the position of its link's source
  node to that of its target node, every link label sits halfway between them, every circle
  and every node label sits at the position of its node, the label with its offset
  \<^verbatim>\<open>dx = 12, dy = ".35em"\<close>.
\<close>

definition rendered :: "Engine \<Rightarrow> bool" where
  "rendered e =
     (length (link_sel e) = length (sim_links e) \<and>
      length (linkLabel_sel e) = length (sim_links e) \<and>
      length (node_sel e) = length (sim_nodes e) \<and>
      length (label_sel e) = length (sim_nodes e) \<and>
      (\<forall>i < length (sim_links e).
         source_node (sim_links e ! i) < length (sim_nodes e) \<and>
         target_node (sim_links e ! i) < length (sim_nodes e) \<and>
         x1 (link_sel e ! i) = Some (x (sim_nodes e ! source_node (sim_links e ! i))) \<and>
         y1 (link_sel e ! i) = Some (y (sim_nodes e ! source_node (sim_links e ! i))) \<and>
         x2 (link_sel e ! i) = Some (x (sim_nodes e ! target_node (sim_links e ! i))) \<and>
         y2 (link_sel e ! i) = Some (y (sim_nodes e ! target_node (sim_links e ! i))) \<and>
         linkLabel_x (linkLabel_sel e ! i)
           = Some ((x (sim_nodes e ! source_node (sim_links e ! i))
                    + x (sim_nodes e ! target_node (sim_links e ! i))) / 2) \<and>
         linkLabel_y (linkLabel_sel e ! i)
           = Some ((y (sim_nodes e ! source_node (sim_links e ! i))
                    + y (sim_nodes e ! target_node (sim_links e ! i))) / 2)) \<and>
      (\<forall>j < length (sim_nodes e).
         cx (node_sel e ! j) = Some (x (sim_nodes e ! j)) \<and>
         cy (node_sel e ! j) = Some (y (sim_nodes e ! j)) \<and>
         label_x (label_sel e ! j) = Some (x (sim_nodes e ! j)) \<and>
         label_y (label_sel e ! j) = Some (y (sim_nodes e ! j)) \<and>
         dx (label_sel e ! j) = 12 \<and> dy (label_sel e ! j) = ''.35em''))"

text \<open>
  Two more snapshots on the groups of \<open>two_nodes\<close>: one grown by a node, one with the
  nodes in the other order; and the component after \<open>two_nodes\<close> was replaced by each.
\<close>

definition three_nodes :: KnowledgeGraphData where
  "three_nodes =
     \<lparr>nodes = [\<lparr>node_id = ''A'', group = ''G1'', val = None\<rparr>,
               \<lparr>node_id = ''B'', group = ''G2'', val = None\<rparr>,
               \<lparr>node_id = ''C'', group = ''G1'', val = Some 5\<rparr>],
      links = [\<lparr>source = ''A'', target = ''B'', relationship = ''to''\<rparr>]\<rparr>"

definition two_nodes_swapped :: KnowledgeGraphData where
  "two_nodes_swapped =
     \<lparr>nodes = [\<lparr>node_id = ''B'', group = ''G2'', val = None\<rparr>,
               \<lparr>node_id = ''A'', group = ''G1'', val = None\<rparr>],
      links = [\<lparr>source = ''A'', target = ''B'', relationship = ''to''\<rparr>]\<rparr>"

definition grown :: Component where
  "grown = state_of (Replace d3_unforced three_nodes mounted)"

definition reordered :: Component where
  "reordered = state_of (Replace d3_unforced two_nodes_swapped mounted)"

section \<open>Whose objects the effect writes to\<close>

text \<open>
  The records above are values; whether the caller's objects are written to depends on
  which objects the writes reach. Here the objects are kept in a store: an object is its
  list of own properties, a reference is a position in the store. The caller's snapshot is
  the list of references to its node objects and the list of references to its link objects.
\<close>

datatype jsval = Str string | Num real | Ref nat | Null

type_synonym jsobj = "(string, jsval) js_map"

type_synonym heap = "jsobj list"

definition set_prop :: "heap \<Rightarrow> nat \<Rightarrow> string \<Rightarrow> jsval \<Rightarrow> heap" where
  "set_prop h a p v = h[a := Map_set (h ! a) p v]"

definition get_prop :: "heap \<Rightarrow> nat \<Rightarrow> string \<Rightarrow> jsval" where
  "get_prop h a p = (case Map_get (h ! a) p of None \<Rightarrow> Null | Some v \<Rightarrow> v)"

text \<open>
  \<^verbatim>\<open>({ ...d })\<close> allocates a new object with the own properties of \<open>d\<close>;
  \<^verbatim>\<open>data.nodes.map(d => ({ ...d }))\<close> does so for each element in turn.
\<close>

definition spread :: "heap \<Rightarrow> nat \<Rightarrow> heap \<times> nat" where
  "spread h a = (h @ [h ! a], length h)"

fun spread_all :: "heap \<Rightarrow> nat list \<Rightarrow> heap \<times> nat list" where
  "spread_all h [] = (h, [])"
| "spread_all h (a # as) =
     (case spread h a of (h1, b) \<Rightarrow>
        (case spread_all h1 as of (h2, bs) \<Rightarrow> (h2, b # bs)))"

text \<open>
  A run of the effect holds the store and its two arrays of references, \<open>nodes\<close> and
  \<open>links\<close>.
\<close>

record HeapRun =
  heap :: heap
  node_refs :: "nat list"
  link_refs :: "nat list"

text \<open>
  The writes of \<^verbatim>\<open>d3.forceSimulation(nodes)\<close> (index, position, velocity of each element
  of \<open>nodes\<close>) and of the link force (index, then \<open>source\<close> and \<open>target\<close> of each element
  of \<open>links\<close>, replaced by a reference to the node found under the identifier; the loop
  ends at the first identifier not found, reported by \<open>True\<close>).
\<close>

definition seed_object :: "d3 \<Rightarrow> heap \<Rightarrow> nat \<times> nat \<Rightarrow> heap" where
  "seed_object lib h ia =
     (case ia of (i, a) \<Rightarrow>
        set_prop (set_prop (set_prop (set_prop (set_prop h a ''index'' (Num (real i)))
          a ''x'' (Num (fst (initial_position lib i))))
          a ''y'' (Num (snd (initial_position lib i))))
          a ''vx'' (Num 0))
          a ''vy'' (Num 0))"

definition heap_forceSimulation :: "d3 \<Rightarrow> heap \<Rightarrow> nat list \<Rightarrow> heap" where
  "heap_forceSimulation lib h ns = foldl (seed_object lib) h (enumerate 0 ns)"

definition heap_find :: "(jsval, nat) js_map \<Rightarrow> jsval \<Rightarrow> nat option" where
  "heap_find nodeById nodeId = Map_get nodeById nodeId"

fun heap_resolve :: "(jsval, nat) js_map \<Rightarrow> heap \<Rightarrow> (nat \<times> nat) list \<Rightarrow> bool \<times> heap" where
  "heap_resolve nodeById h [] = (False, h)"
| "heap_resolve nodeById h ((i, l) # ls) =
     (let h1 = set_prop h l ''index'' (Num (real i)) in
      case heap_find nodeById (get_prop h1 l ''source'') of
        None \<Rightarrow> (True, h1)
      | Some s \<Rightarrow>
          (let h2 = set_prop h1 l ''source'' (Ref s) in
           case heap_find nodeById (get_prop h2 l ''target'') of
             None \<Rightarrow> (True, h2)
           | Some t \<Rightarrow> heap_resolve nodeById (set_prop h2 l ''target'' (Ref t)) ls))"

definition heap_forceLink :: "heap \<Rightarrow> nat list \<Rightarrow> nat list \<Rightarrow> bool \<times> heap" where
  "heap_forceLink h ns ls =
     heap_resolve (Map_new (map (\<lambda>a. (get_prop h a ''id'', a)) ns)) h (enumerate 0 ls)"

text \<open>
  The effect body, as far as it writes to objects: the guard, the two copies, the
  simulation and the link force. The caller's arrays hold references to objects of the
  store.
\<close>

definition heap_effect ::
  "d3 \<Rightarrow> bool \<Rightarrow> heap \<Rightarrow> nat list \<Rightarrow> nat list \<Rightarrow> bool \<times> HeapRun"
where
  "heap_effect lib svgRef_current h data_nodes data_links =
     (if data_nodes = [] \<or> \<not> svgRef_current
      then (False, \<lparr>heap = h, node_refs = [], link_refs = []\<rparr>)
      else
        (case spread_all h data_nodes of (h1, ns) \<Rightarrow>
           (case spread_all h1 data_links of (h2, ls) \<Rightarrow>
              (case heap_forceLink (heap_forceSimulation lib h2 ns) ns ls of (threw, h3) \<Rightarrow>
                 (threw, \<lparr>heap = h3, node_refs = ns, link_refs = ls\<rparr>)))))"

text \<open>
  A tick writes position and velocity of every element of \<open>nodes\<close>. Which values the
  forces and the integration arrive at is immaterial here, so a tick carries them, by
  reference. The drag handlers write the pin of the datum \<open>d\<close>, the element of \<open>nodes\<close>
  bound to the circle.
\<close>

definition move_object :: "(nat \<Rightarrow> real \<times> real \<times> real \<times> real) \<Rightarrow> heap \<Rightarrow> nat \<Rightarrow> heap" where
  "move_object motion h a =
     (case motion a of (px, py, pvx, pvy) \<Rightarrow>
        set_prop (set_prop (set_prop (set_prop h a ''x'' (Num px)) a ''y'' (Num py))
          a ''vx'' (Num pvx)) a ''vy'' (Num pvy))"

definition heap_tick :: "(nat \<Rightarrow> real \<times> real \<times> real \<times> real) \<Rightarrow> HeapRun \<Rightarrow> HeapRun" where
  "heap_tick motion r = r\<lparr>heap := foldl (move_object motion) (heap r) (node_refs r)\<rparr>"

definition on_datum :: "HeapRun \<Rightarrow> nat \<Rightarrow> (nat \<Rightarrow> heap) \<Rightarrow> HeapRun" where
  "on_datum r i f = (if i < length (node_refs r) then r\<lparr>heap := f (node_refs r ! i)\<rparr> else r)"

definition heap_dragstarted :: "nat \<Rightarrow> HeapRun \<Rightarrow> HeapRun" where
  "heap_dragstarted i r =
     on_datum r i (\<lambda>d. set_prop (set_prop (heap r) d ''fx'' (get_prop (heap r) d ''x''))
                         d ''fy'' (get_prop (heap r) d ''y''))"

definition heap_dragged :: "real \<times> real \<Rightarrow> nat \<Rightarrow> HeapRun \<Rightarrow> HeapRun" where
  "heap_dragged pointer i r =
     on_datum r i (\<lambda>d. set_prop (set_prop (heap r) d ''fx'' (Num (fst pointer)))
                         d ''fy'' (Num (snd pointer)))"

definition heap_dragended :: "nat \<Rightarrow> HeapRun \<Rightarrow> HeapRun" where
  "heap_dragended i r =
     on_datum r i (\<lambda>d. set_prop (set_prop (heap r) d ''fx'' Null) d ''fy'' Null)"

datatype heap_input =
  HeapTick "nat \<Rightarrow> real \<times> real \<times> real \<times> real"
  | HeapDragStart nat
  | HeapDragMove "real \<times> real" nat
  | HeapDragEnd nat

fun heap_handle :: "HeapRun \<Rightarrow> heap_input \<Rightarrow> HeapRun" where
  "heap_handle r (HeapTick motion) = heap_tick motion r"
| "heap_handle r (HeapDragStart i) = heap_dragstarted i r"
| "heap_handle r (HeapDragMove pointer i) = heap_dragged pointer i r"
| "heap_handle r (HeapDragEnd i) = heap_dragended i r"

text \<open>
  A run owns its records with respect to a store \<open>h\<close>: the objects of \<open>h\<close> are still what
  they were, and every reference in the run's arrays lies beyond them.
\<close>

definition owned :: "heap \<Rightarrow> HeapRun \<Rightarrow> bool" where
  "owned h r =
     (take (length h) (heap r) = h \<and>
      list_all (\<lambda>a. length h \<le> a \<and> a < length (heap r)) (node_refs r @ link_refs r))"

text \<open>
  A passage from store \<open>h\<close> to store \<open>h'\<close> writes only the properties named in \<open>W\<close> of the
  objects at the references in \<open>A\<close>: every other property of every object reads as before.
\<close>

definition writes_only :: "nat set \<Rightarrow> string set \<Rightarrow> heap \<Rightarrow> heap \<Rightarrow> bool" where
  "writes_only A W h h' = (\<forall>a p. a \<in> A \<and> p \<in> W \<or> get_prop h' a p = get_prop h a p)"

text \<open>
  A caller's store with two node objects and a link object.
\<close>

definition caller_heap :: heap where
  "caller_heap =
     [[(''id'', Str ''A''), (''group'', Str ''G1'')],
      [(''id'', Str ''B''), (''group'', Str ''G2'')],
      [(''source'', Str ''A''), (''target'', Str ''B''), (''relationship'', Str ''to'')]]"

text \<open>
  The run of the effect on that store, and the run after a tick, a drag of the first node
  and a tick that moves it to \<open>(50, 60)\<close>.
\<close>

definition caller_run :: HeapRun where
  "caller_run = snd (heap_effect d3_unforced True caller_heap [0, 1] [2])"

definition caller_run_dragged :: HeapRun where
  "caller_run_dragged =
     foldl heap_handle caller_run
       [HeapTick (\<lambda>a. (1, 2, 0, 0)), HeapDragStart 0, HeapDragMove (50, 60) 0,
        HeapTick (\<lambda>a. (50, 60, 0, 0)), HeapDragEnd 0]"

section \<open>Properties of the merge\<close>

subsection \<open>The node map\<close>

lemma Map_set_absent: "\<not> Map_has m k \<Longrightarrow> Map_set m k v = m @ [(k, v)]"
  by (induction m) (auto simp: Map_has_def)

lemma Map_set_keys: "set (map fst (Map_set m k v)) = insert k (set (map fst m))"
  by (induction m) auto

lemma Map_set_distinct: "distinct (map fst m) \<Longrightarrow> distinct (map fst (Map_set m k v))"
  by (induction m) (auto simp: Map_set_keys[simplified])

lemma Map_set_keyed:
  "keyed lower m \<Longrightarrow> k = lower (node_id v) \<Longrightarrow> keyed lower (Map_set m k v)"
  by (induction m) (auto simp: keyed_def)

lemma Map_new_fold_distinct:
  "distinct (map fst (m @ es)) \<Longrightarrow> foldl (\<lambda>m e. Map_set m (fst e) (snd e)) m es = m @ es"
proof (induction es arbitrary: m)
  case Nil
  then show ?case by simp
next
  case (Cons e es)
  from Cons.prems have "\<not> Map_has m (fst e)"
    by (auto simp: Map_has_def)
  then have step: "Map_set m (fst e) (snd e) = m @ [e]"
    by (simp add: Map_set_absent)
  from Cons.prems have "distinct (map fst ((m @ [e]) @ es))"
    by simp
  from Cons.IH[OF this] step show ?case
    by simp
qed

lemma Map_new_distinct: "distinct (map fst es) \<Longrightarrow> Map_new es = es"
  using Map_new_fold_distinct[of "[]" es] by (simp add: Map_new_def)

lemma Map_new_fold_inv:
  "distinct (map fst m) \<Longrightarrow> keyed lower m \<Longrightarrow> \<forall>e \<in> set es. fst e = lower (node_id (snd e)) \<Longrightarrow>
   distinct (map fst (foldl (\<lambda>m e. Map_set m (fst e) (snd e)) m es)) \<and>
   keyed lower (foldl (\<lambda>m e. Map_set m (fst e) (snd e)) m es)"
  by (induction es arbitrary: m) (simp_all add: Map_set_distinct Map_set_keyed)

lemma Map_new_inv:
  "distinct (map fst (Map_new (map (\<lambda>n. (lower (node_id n), n)) ns))) \<and>
   keyed lower (Map_new (map (\<lambda>n. (lower (node_id n), n)) ns))"
  unfolding Map_new_def
  by (rule Map_new_fold_inv) (auto simp: keyed_def)

lemma add_node_extends: "\<exists>ex. add_node lower m n = m @ ex"
  by (auto simp: add_node_def Map_set_absent)

lemma add_node_inv:
  "distinct (map fst m) \<Longrightarrow> keyed lower m \<Longrightarrow>
   distinct (map fst (add_node lower m n)) \<and> keyed lower (add_node lower m n)"
  by (simp add: add_node_def Map_set_distinct Map_set_keyed)

lemma fold_add_node_extends: "\<exists>ex. foldl (add_node lower) m ns = m @ ex"
proof (induction ns arbitrary: m)
  case Nil
  then show ?case by simp
next
  case (Cons n ns)
  obtain e1 where e1: "add_node lower m n = m @ e1"
    using add_node_extends by blast
  obtain e2 where "foldl (add_node lower) (m @ e1) ns = (m @ e1) @ e2"
    using Cons.IH by blast
  with e1 show ?case by simp
qed

lemma fold_add_node_inv:
  "distinct (map fst m) \<Longrightarrow> keyed lower m \<Longrightarrow>
   distinct (map fst (foldl (add_node lower) m ns)) \<and> keyed lower (foldl (add_node lower) m ns)"
  by (induction ns arbitrary: m) (simp_all add: add_node_inv)

lemma keyed_values:
  "keyed lower m \<Longrightarrow> map (\<lambda>n. lower (node_id n)) (Map_values m) = map fst m"
  by (induction m) (auto simp: keyed_def Map_values_def)

lemma keyed_has:
  "keyed lower m \<Longrightarrow> Map_has m k \<longleftrightarrow> (\<exists>n \<in> set (Map_values m). lower (node_id n) = k)"
  by (force simp: keyed_def Map_has_def Map_values_def)

lemma add_link_extends: "\<exists>ex. fst (add_link lower m st l) = fst st @ ex"
  by (simp add: add_link_def Let_def)

lemma fold_add_link_extends: "\<exists>ex. fst (foldl (add_link lower m) st ls) = fst st @ ex"
proof (induction ls arbitrary: st)
  case Nil
  then show ?case by simp
next
  case (Cons l ls)
  obtain e1 where e1: "fst (add_link lower m st l) = fst st @ e1"
    using add_link_extends by blast
  obtain e2 where "fst (foldl (add_link lower m) (add_link lower m st l) ls)
      = fst (add_link lower m st l) @ e2"
    using Cons.IH by blast
  with e1 show ?case by simp
qed

lemma nodes_updateGraph:
  "nodes (updateGraph lower prev nn nl) =
     Map_values (foldl (add_node lower) (Map_new (map (\<lambda>n. (lower (node_id n), n)) (nodes prev))) nn)"
  by (simp add: updateGraph_def Let_def)

lemma links_updateGraph:
  "links (updateGraph lower prev nn nl) =
     fst (foldl (add_link lower
        (foldl (add_node lower) (Map_new (map (\<lambda>n. (lower (node_id n), n)) (nodes prev))) nn))
        (links prev, set (map link_key (links prev))) nl)"
  by (simp add: updateGraph_def Let_def)

lemma add_link_cases:
  "add_link lower m st l = st \<or>
   (add_link lower m st l = (fst st @ [l], insert (link_key l) (snd st)) \<and>
    link_key l \<notin> snd st \<and> Map_has m (lower (source l)) \<and> Map_has m (lower (target l)))"
  by (cases st) (simp add: add_link_def Let_def)

lemma fold_add_link_added:
  assumes "snd st = link_key ` set (fst st)"
  shows "\<exists>added. foldl (add_link lower m) st ls = (fst st @ added, link_key ` set (fst st @ added)) \<and>
           subseq added ls \<and> distinct (map link_key added) \<and>
           (\<forall>l \<in> set added. link_key l \<notin> link_key ` set (fst st) \<and>
              Map_has m (lower (source l)) \<and> Map_has m (lower (target l)))"
  using assms
proof (induction ls arbitrary: st)
  case Nil
  then have "foldl (add_link lower m) st [] = (fst st @ [], link_key ` set (fst st @ []))"
    by (cases st) simp
  then show ?case
    by (intro exI[of _ "[]"]) simp
next
  case (Cons l ls)
  let ?st' = "add_link lower m st l"
  consider (skip) "?st' = st"
    | (push) "?st' = (fst st @ [l], insert (link_key l) (snd st))" "link_key l \<notin> snd st"
        "Map_has m (lower (source l))" "Map_has m (lower (target l))"
    using add_link_cases[of lower m st l] by blast
  then show ?case
  proof cases
    case skip
    from Cons.IH[OF Cons.prems] obtain added where
      a: "foldl (add_link lower m) st ls = (fst st @ added, link_key ` set (fst st @ added))"
         "subseq added ls" "distinct (map link_key added)"
         "\<forall>l \<in> set added. link_key l \<notin> link_key ` set (fst st) \<and>
              Map_has m (lower (source l)) \<and> Map_has m (lower (target l))"
      by blast
    from a(2) have "subseq added (l # ls)"
      by (rule list_emb_Cons)
    with a(1,3,4) skip show ?thesis
      by (intro exI[of _ added]) simp
  next
    case push
    from push(1) Cons.prems have inv': "snd ?st' = link_key ` set (fst ?st')"
      by simp
    from Cons.IH[OF inv'] obtain added where
      a: "foldl (add_link lower m) ?st' ls = (fst ?st' @ added, link_key ` set (fst ?st' @ added))"
         "subseq added ls" "distinct (map link_key added)"
         "\<forall>k \<in> set added. link_key k \<notin> link_key ` set (fst ?st') \<and>
              Map_has m (lower (source k)) \<and> Map_has m (lower (target k))"
      by blast
    have fst': "fst ?st' = fst st @ [l]"
      using push(1) by simp
    have 1: "foldl (add_link lower m) st (l # ls)
               = (fst st @ (l # added), link_key ` set (fst st @ (l # added)))"
      using a(1) fst' by simp
    have 2: "subseq (l # added) (l # ls)"
      using a(2) by simp
    have 3: "distinct (map link_key (l # added))"
      using a(3,4) fst' by auto
    have 4: "\<forall>k \<in> set (l # added). link_key k \<notin> link_key ` set (fst st) \<and>
              Map_has m (lower (source k)) \<and> Map_has m (lower (target k))"
      using a(4) fst' push(2,3,4) Cons.prems by auto
    from 1 2 3 4 show ?thesis
      by blast
  qed
qed

lemma link_key_triple: "link_triple a = link_triple b \<Longrightarrow> link_key a = link_key b"
  by (simp add: link_triple_def link_key_def)

lemma distinct_keys_triples:
  "distinct (map link_key ls) \<Longrightarrow> distinct (map link_triple ls)"
  by (induction ls) (auto dest: link_key_triple)

subsection \<open>Runs of the merge on concrete graphs\<close>

lemma INITIAL_DATA_distinct:
  "distinct (map (\<lambda>n. toLowerCase (node_id n)) (nodes INITIAL_DATA))"
  by code_simp

lemma AI_graph_links: "links (updateGraph toLowerCase AI_graph [] [ai_link]) = [ai_link]"
  by code_simp

lemma AI_graph_ids:
  "map node_id (nodes (updateGraph toLowerCase AI_graph [] [ai_link])) = [''AI'']"
  by code_simp

lemma clash_graph_nodes:
  "nodes (updateGraph toLowerCase clash_graph [] []) =
     [\<lparr>node_id = ''ai'', group = ''Technology'', val = None\<rparr>]"
  by code_simp

lemma ethics_ids:
  "map node_id (nodes (updateGraph toLowerCase INITIAL_DATA ethics_nodes ethics_links))
     = map node_id (nodes INITIAL_DATA) @ [''Ethics'']"
  by code_simp

subsection \<open>Merging keeps what is there\<close>

text \<open>
  When the identifiers of the previous graph are pairwise distinct after lowering, the
  previous nodes and the previous links are a prefix of the result: each is present,
  unchanged and in its old position, and the merge only appends. The lowered identifiers of
  the result are again pairwise distinct.
\<close>

lemma updateGraph_extends:
  assumes "distinct (map (\<lambda>n. lower (node_id n)) (nodes prev))"
  shows "\<exists>addedNodes addedLinks.
           nodes (updateGraph lower prev newNodes newLinks) = nodes prev @ addedNodes \<and>
           links (updateGraph lower prev newNodes newLinks) = links prev @ addedLinks \<and>
           distinct (map (\<lambda>n. lower (node_id n)) (nodes (updateGraph lower prev newNodes newLinks)))"
proof -
  let ?es = "map (\<lambda>n. (lower (node_id n), n)) (nodes prev)"
  let ?m = "foldl (add_node lower) (Map_new ?es) newNodes"
  have "distinct (map fst ?es)"
    using assms by (simp add: comp_def)
  then have m0: "Map_new ?es = ?es"
    by (rule Map_new_distinct)
  obtain ex where "?m = Map_new ?es @ ex"
    using fold_add_node_extends by blast
  with m0 have "Map_values ?m = nodes prev @ Map_values ex"
    by (simp add: Map_values_def comp_def)
  then have n: "nodes (updateGraph lower prev newNodes newLinks) = nodes prev @ Map_values ex"
    by (simp add: nodes_updateGraph)
  obtain al where l: "links (updateGraph lower prev newNodes newLinks) = links prev @ al"
    using fold_add_link_extends[of lower ?m "(links prev, set (map link_key (links prev)))" newLinks]
    by (auto simp: links_updateGraph)
  have inv: "distinct (map fst ?m) \<and> keyed lower ?m"
    using Map_new_inv[of lower "nodes prev"] fold_add_node_inv by blast
  then have "distinct (map (\<lambda>n. lower (node_id n)) (Map_values ?m))"
    by (simp add: keyed_values)
  then have d: "distinct (map (\<lambda>n. lower (node_id n)) (nodes (updateGraph lower prev newNodes newLinks)))"
    by (simp add: nodes_updateGraph)
  from n l d show ?thesis by blast
qed

text \<open>
  Without that distinctness the prefix property fails: of two nodes whose identifiers differ
  only in case, \<^verbatim>\<open>new Map(prev.nodes.map(...))\<close> keeps the later one under their common key.
  No graph the application holds is of this kind, as the next lemmas show.
\<close>

lemma updateGraph_drops_case_clash:
  "\<not> set (nodes clash_graph) \<subseteq> set (nodes (updateGraph toLowerCase clash_graph [] []))"
  by (simp add: clash_graph_nodes) (simp add: clash_graph_def)

lemma graphData_after_snoc:
  "graphData_after lower (calls @ [call]) =
     updateGraph lower (graphData_after lower calls) (fst call) (snd call)"
  by (simp add: graphData_after_def)

lemma graphData_after_distinct:
  assumes "distinct (map (\<lambda>n. lower (node_id n)) (nodes INITIAL_DATA))"
  shows "distinct (map (\<lambda>n. lower (node_id n)) (nodes (graphData_after lower calls)))"
proof (induction calls rule: rev_induct)
  case Nil
  show ?case using assms by (simp add: graphData_after_def)
next
  case (snoc call calls)
  show ?case
    using updateGraph_extends[OF snoc.IH, of "fst call" "snd call"]
    by (simp only: graphData_after_snoc) blast
qed

lemma ethics_graph:
  "graphData_after toLowerCase [(ethics_nodes, ethics_links)]
     = updateGraph toLowerCase INITIAL_DATA ethics_nodes ethics_links"
  by (simp add: graphData_after_def)

text \<open>
  Claim C9. The previous graph of a call to \<^verbatim>\<open>updateGraph\<close> is the state of \<^verbatim>\<open>App\<close>:
  \<open>INITIAL_DATA\<close> merged with the proposals of any sequence of earlier calls, whatever nodes
  and links they proposed. For every such previous graph and any proposed nodes and links,
  the nodes of the result are the previous nodes followed by the added ones and the links of
  the result are the previous links followed by the added ones: every previous node and
  every previous link is present unchanged, and nothing is removed or altered. The
  hypothesis is on the seven identifiers of \<open>INITIAL_DATA\<close> only, that lowering keeps them
  apart, as \<^verbatim>\<open>toLowerCase\<close> does.
\<close>

theorem updateGraph_keeps_existing:
  assumes "distinct (map (\<lambda>n. lower (node_id n)) (nodes INITIAL_DATA))"
  shows "\<exists>addedNodes addedLinks.
           nodes (updateGraph lower (graphData_after lower calls) newNodes newLinks)
             = nodes (graphData_after lower calls) @ addedNodes \<and>
           links (updateGraph lower (graphData_after lower calls) newNodes newLinks)
             = links (graphData_after lower calls) @ addedLinks"
  using updateGraph_extends[OF graphData_after_distinct[OF assms]] by blast

theorem updateGraph_keeps_existing_witness:
  "distinct (map (\<lambda>n. toLowerCase (node_id n)) (nodes INITIAL_DATA)) \<and>
   map node_id (nodes (graphData_after toLowerCase [(ethics_nodes, ethics_links)]))
     = map node_id (nodes INITIAL_DATA) @ [''Ethics''] \<and>
   (\<exists>addedNodes addedLinks.
      nodes (updateGraph toLowerCase (graphData_after toLowerCase [(ethics_nodes, ethics_links)])
               [\<lparr>node_id = ''ETHICS'', group = ''Law'', val = None\<rparr>] [ai_link])
        = nodes (graphData_after toLowerCase [(ethics_nodes, ethics_links)]) @ addedNodes \<and>
      links (updateGraph toLowerCase (graphData_after toLowerCase [(ethics_nodes, ethics_links)])
               [\<lparr>node_id = ''ETHICS'', group = ''Law'', val = None\<rparr>] [ai_link])
        = links (graphData_after toLowerCase [(ethics_nodes, ethics_links)]) @ addedLinks)"
  using updateGraph_keeps_existing [OF INITIAL_DATA_distinct,
      of "[(ethics_nodes, ethics_links)]"
         "[\<lparr>node_id = ''ETHICS'', group = ''Law'', val = None\<rparr>]" "[ai_link]"]
    INITIAL_DATA_distinct ethics_ids
  by (simp only: ethics_graph)

subsection \<open>Which links are added\<close>

text \<open>
  Claim C10. The links of the result are the previous links followed by the added ones, a
  subsequence of the proposed links. Every added link has a triple
  (source, target, relationship) that no previous link and no other added link has, and its
  source and its target each equal, after lowering, the lowered identifier of some node of
  the merged node list. The comparison is on lowered strings only: in the run on
  \<open>AI_graph\<close> the link from \<open>''ai''\<close> is added although no node has the identifier \<open>''ai''\<close>.
\<close>

theorem updateGraph_added_links:
  "(\<exists>added.
      links (updateGraph lower prev newNodes newLinks) = links prev @ added \<and>
      subseq added newLinks \<and>
      distinct (map link_triple added) \<and>
      (\<forall>l \<in> set added.
         link_triple l \<notin> link_triple ` set (links prev) \<and>
         (\<exists>n \<in> set (nodes (updateGraph lower prev newNodes newLinks)).
            lower (node_id n) = lower (source l)) \<and>
         (\<exists>n \<in> set (nodes (updateGraph lower prev newNodes newLinks)).
            lower (node_id n) = lower (target l)))) \<and>
   (\<exists>l \<in> set (links (updateGraph toLowerCase AI_graph [] [ai_link])).
      l \<notin> set (links AI_graph) \<and>
      source l \<notin> set (map node_id (nodes (updateGraph toLowerCase AI_graph [] [ai_link]))))"
proof
  let ?m = "foldl (add_node lower) (Map_new (map (\<lambda>n. (lower (node_id n), n)) (nodes prev))) newNodes"
  let ?r = "updateGraph lower prev newNodes newLinks"
  have keyed: "keyed lower ?m"
    using Map_new_inv[of lower "nodes prev"] fold_add_node_inv by blast
  have "snd (links prev, set (map link_key (links prev))) =
          link_key ` set (fst (links prev, set (map link_key (links prev))))"
    by simp
  from fold_add_link_added[OF this, of lower ?m newLinks] obtain added where
    a: "links ?r = links prev @ added" "subseq added newLinks" "distinct (map link_key added)"
       "\<forall>l \<in> set added. link_key l \<notin> link_key ` set (links prev) \<and>
          Map_has ?m (lower (source l)) \<and> Map_has ?m (lower (target l))"
    by (auto simp: links_updateGraph)
  have d: "distinct (map link_triple added)"
    using a(3) by (rule distinct_keys_triples)
  have e: "\<forall>l \<in> set added.
         link_triple l \<notin> link_triple ` set (links prev) \<and>
         (\<exists>n \<in> set (nodes ?r). lower (node_id n) = lower (source l)) \<and>
         (\<exists>n \<in> set (nodes ?r). lower (node_id n) = lower (target l))"
  proof
    fix l assume l: "l \<in> set added"
    with a(4) have k: "link_key l \<notin> link_key ` set (links prev)"
      and s: "Map_has ?m (lower (source l))" and t: "Map_has ?m (lower (target l))"
      by auto
    from k have "link_triple l \<notin> link_triple ` set (links prev)"
      by (auto dest: link_key_triple)
    moreover from s have "\<exists>n \<in> set (nodes ?r). lower (node_id n) = lower (source l)"
      using keyed_has[OF keyed] by (simp add: nodes_updateGraph)
    moreover from t have "\<exists>n \<in> set (nodes ?r). lower (node_id n) = lower (target l)"
      using keyed_has[OF keyed] by (simp add: nodes_updateGraph)
    ultimately show "link_triple l \<notin> link_triple ` set (links prev) \<and>
         (\<exists>n \<in> set (nodes ?r). lower (node_id n) = lower (source l)) \<and>
         (\<exists>n \<in> set (nodes ?r). lower (node_id n) = lower (target l))"
      by blast
  qed
  from a(1,2) d e show "\<exists>added.
      links ?r = links prev @ added \<and> subseq added newLinks \<and> distinct (map link_triple added) \<and>
      (\<forall>l \<in> set added.
         link_triple l \<notin> link_triple ` set (links prev) \<and>
         (\<exists>n \<in> set (nodes ?r). lower (node_id n) = lower (source l)) \<and>
         (\<exists>n \<in> set (nodes ?r). lower (node_id n) = lower (target l)))"
    by blast
next
  show "\<exists>l \<in> set (links (updateGraph toLowerCase AI_graph [] [ai_link])).
      l \<notin> set (links AI_graph) \<and>
      source l \<notin> set (map node_id (nodes (updateGraph toLowerCase AI_graph [] [ai_link])))"
    by (simp add: AI_graph_links AI_graph_ids) (simp add: AI_graph_def ai_link_def)
qed

theorem updateGraph_added_links_witness:
  "\<exists>added.
      links (updateGraph toLowerCase AI_graph [] [ai_link]) = links AI_graph @ added \<and>
      added = [ai_link] \<and>
      (\<forall>l \<in> set added.
         link_triple l \<notin> link_triple ` set (links AI_graph) \<and>
         (\<exists>n \<in> set (nodes (updateGraph toLowerCase AI_graph [] [ai_link])).
            toLowerCase (node_id n) = toLowerCase (source l)) \<and>
         (\<exists>n \<in> set (nodes (updateGraph toLowerCase AI_graph [] [ai_link])).
            toLowerCase (node_id n) = toLowerCase (target l)))"
proof -
  from updateGraph_added_links [of toLowerCase AI_graph "[]" "[ai_link]"]
  obtain added where
    a: "links (updateGraph toLowerCase AI_graph [] [ai_link]) = links AI_graph @ added"
    and b: "\<forall>l \<in> set added.
         link_triple l \<notin> link_triple ` set (links AI_graph) \<and>
         (\<exists>n \<in> set (nodes (updateGraph toLowerCase AI_graph [] [ai_link])).
            toLowerCase (node_id n) = toLowerCase (source l)) \<and>
         (\<exists>n \<in> set (nodes (updateGraph toLowerCase AI_graph [] [ai_link])).
            toLowerCase (node_id n) = toLowerCase (target l))"
    by blast
  from a have "added = [ai_link]"
    by (simp add: AI_graph_links) (simp add: AI_graph_def)
  with a b show ?thesis
    by blast
qed

section \<open>Properties of the force-directed view\<close>

subsection \<open>Evaluation of the small runs\<close>

lemma two_nodes_links_resolved:
  "forceLink_initialize (sim_nodes (forceSimulation lib (nodes two_nodes))) (links two_nodes)
     = Inr [\<lparr>source_node = 0, target_node = 1, link_relationship = ''to'', link_index = 0\<rparr>]"
  by (simp add: forceLink_initialize_def forceSimulation_def two_nodes_def seed_node_def
      Map_new_def find_def Map_get_def)

lemma two_nodes_nonempty: "nodes two_nodes \<noteq> []"
  by (simp add: two_nodes_def)

lemma Mount_two_nodes:
  "Mount lib two_nodes =
     Returned \<lparr>data = two_nodes, dimensions = (800, 600), svgRef = True,
       simulations = [register_and_draw (800, 600)
          [\<lparr>source_node = 0, target_node = 1, link_relationship = ''to'', link_index = 0\<rparr>]
          (forceSimulation lib (nodes two_nodes))],
       cleanup = Some 0, svg = Some 0\<rparr>"
  by (simp add: Mount_def first_render_def run_effect_def two_nodes_links_resolved
      two_nodes_nonempty)

lemma mounted_eq:
  "mounted =
     \<lparr>data = two_nodes, dimensions = (800, 600), svgRef = True,
       simulations = [register_and_draw (800, 600)
          [\<lparr>source_node = 0, target_node = 1, link_relationship = ''to'', link_index = 0\<rparr>]
          (forceSimulation d3_unforced (nodes two_nodes))],
       cleanup = Some 0, svg = Some 0\<rparr>"
  by (simp add: mounted_def Mount_two_nodes state_of_def)

lemma sim_nodes_two:
  "sim_nodes (forceSimulation lib (nodes two_nodes)) =
    [seed_node lib 0 \<lparr>node_id = ''A'', group = ''G1'', val = None\<rparr>,
     seed_node lib 1 \<lparr>node_id = ''B'', group = ''G2'', val = None\<rparr>]"
  by (simp add: forceSimulation_def two_nodes_def)

subsection \<open>Ticks keep the shape of the arrays and the pins\<close>

lemma length_apply_forces [simp]: "length (apply_forces lib a e) = length (sim_nodes e)"
  by (simp add: apply_forces_def split: option.split)

lemma nth_apply_forces_pin:
  "i < length (sim_nodes e) \<Longrightarrow>
     fx (apply_forces lib a e ! i) = fx (sim_nodes e ! i) \<and>
     fy (apply_forces lib a e ! i) = fy (sim_nodes e ! i)"
  by (simp add: apply_forces_def nth_enumerate_eq split: option.split prod.split)

lemma integrate_pin [simp]:
  "fx (integrate_y (integrate_x d)) = fx d" "fy (integrate_y (integrate_x d)) = fy d"
  by (simp_all add: integrate_x_def integrate_y_def split: option.split)

lemma integrate_pinned:
  "fx d = Some px \<Longrightarrow> x (integrate_y (integrate_x d)) = px"
  "fy d = Some py \<Longrightarrow> y (integrate_y (integrate_x d)) = py"
  by (simp_all add: integrate_x_def integrate_y_def split: option.split)

lemma length_tick [simp]: "length (sim_nodes (tick lib e)) = length (sim_nodes e)"
  by (simp add: tick_def Let_def)

lemma tick_frame_fields [simp]:
  "sim_links (tick lib e) = sim_links e" "centering (tick lib e) = centering e"
  "alphaTarget (tick lib e) = alphaTarget e" "running (tick lib e) = running e"
  "tick_listener (tick lib e) = tick_listener e" "link_sel (tick lib e) = link_sel e"
  "linkLabel_sel (tick lib e) = linkLabel_sel e" "node_sel (tick lib e) = node_sel e"
  "label_sel (tick lib e) = label_sel e"
  by (simp_all add: tick_def Let_def)

lemma tick_pin:
  assumes "i < length (sim_nodes e)"
  shows "fx (sim_nodes (tick lib e) ! i) = fx (sim_nodes e ! i)"
    and "fy (sim_nodes (tick lib e) ! i) = fy (sim_nodes e ! i)"
  using assms nth_apply_forces_pin[of i e lib] by (simp_all add: tick_def Let_def)

lemma tick_pinned:
  assumes "i < length (sim_nodes e)"
  shows "fx (sim_nodes e ! i) = Some px \<Longrightarrow> x (sim_nodes (tick lib e) ! i) = px"
    and "fy (sim_nodes e ! i) = Some py \<Longrightarrow> y (sim_nodes (tick lib e) ! i) = py"
  using assms nth_apply_forces_pin[of i e lib]
  by (simp_all add: tick_def Let_def integrate_pinned)

lemma ticked_fields [simp]:
  "sim_nodes (ticked e) = sim_nodes e" "sim_links (ticked e) = sim_links e"
  "centering (ticked e) = centering e" "alpha (ticked e) = alpha e"
  "alphaTarget (ticked e) = alphaTarget e" "running (ticked e) = running e"
  "tick_listener (ticked e) = tick_listener e"
  by (simp_all add: ticked_def)

lemma step_fields [simp]:
  "sim_nodes (step lib e) = sim_nodes (tick lib e)" "sim_links (step lib e) = sim_links e"
  "centering (step lib e) = centering e" "alphaTarget (step lib e) = alphaTarget e"
  "tick_listener (step lib e) = tick_listener e" "alpha (step lib e) = alpha (tick lib e)"
  by (simp_all add: step_def Let_def)

lemma frame_stopped: "\<not> running e \<Longrightarrow> frame lib e = e"
  by (simp add: frame_def)

lemma frame_running: "running e \<Longrightarrow> frame lib e = step lib e"
  by (simp add: frame_def)

lemma frame_fields [simp]:
  "length (sim_nodes (frame lib e)) = length (sim_nodes e)"
  "sim_links (frame lib e) = sim_links e" "centering (frame lib e) = centering e"
  "alphaTarget (frame lib e) = alphaTarget e" "tick_listener (frame lib e) = tick_listener e"
  by (simp_all add: frame_def)

lemma frame_pin:
  assumes "i < length (sim_nodes e)"
  shows "fx (sim_nodes (frame lib e) ! i) = fx (sim_nodes e ! i)"
    and "fy (sim_nodes (frame lib e) ! i) = fy (sim_nodes e ! i)"
  using assms by (simp_all add: frame_def tick_pin)

subsection \<open>Drag handlers, field by field\<close>

lemma dragstarted_fields [simp]:
  "length (sim_nodes (dragstarted active i e)) = length (sim_nodes e)"
  "sim_links (dragstarted active i e) = sim_links e"
  "centering (dragstarted active i e) = centering e"
  "tick_listener (dragstarted active i e) = tick_listener e"
  "link_sel (dragstarted active i e) = link_sel e"
  "linkLabel_sel (dragstarted active i e) = linkLabel_sel e"
  "node_sel (dragstarted active i e) = node_sel e"
  "label_sel (dragstarted active i e) = label_sel e"
  "alpha (dragstarted active i e) = alpha e"
  by (simp_all add: dragstarted_def Let_def)

lemma dragged_fields [simp]:
  "length (sim_nodes (dragged pointer i e)) = length (sim_nodes e)"
  "sim_links (dragged pointer i e) = sim_links e"
  "centering (dragged pointer i e) = centering e"
  "tick_listener (dragged pointer i e) = tick_listener e"
  "link_sel (dragged pointer i e) = link_sel e"
  "linkLabel_sel (dragged pointer i e) = linkLabel_sel e"
  "node_sel (dragged pointer i e) = node_sel e"
  "label_sel (dragged pointer i e) = label_sel e"
  "alpha (dragged pointer i e) = alpha e"
  "alphaTarget (dragged pointer i e) = alphaTarget e"
  "running (dragged pointer i e) = running e"
  by (simp_all add: dragged_def)

lemma dragended_fields [simp]:
  "length (sim_nodes (dragended active i e)) = length (sim_nodes e)"
  "sim_links (dragended active i e) = sim_links e"
  "centering (dragended active i e) = centering e"
  "tick_listener (dragended active i e) = tick_listener e"
  "link_sel (dragended active i e) = link_sel e"
  "linkLabel_sel (dragended active i e) = linkLabel_sel e"
  "node_sel (dragended active i e) = node_sel e"
  "label_sel (dragended active i e) = label_sel e"
  "alpha (dragended active i e) = alpha e"
  "running (dragended active i e) = running e"
  by (simp_all add: dragended_def Let_def)

lemma dragstarted_pin:
  "i < length (sim_nodes e) \<Longrightarrow>
     fx (sim_nodes (dragstarted active i e) ! i) = Some (x (sim_nodes e ! i)) \<and>
     fy (sim_nodes (dragstarted active i e) ! i) = Some (y (sim_nodes e ! i)) \<and>
     x (sim_nodes (dragstarted active i e) ! i) = x (sim_nodes e ! i) \<and>
     y (sim_nodes (dragstarted active i e) ! i) = y (sim_nodes e ! i)"
  by (simp add: dragstarted_def Let_def)

lemma dragstarted_reheat:
  "alphaTarget (dragstarted 0 i e) = 0.3" "running (dragstarted 0 i e)"
  "active \<noteq> 0 \<Longrightarrow> alphaTarget (dragstarted active i e) = alphaTarget e"
  "active \<noteq> 0 \<Longrightarrow> running (dragstarted active i e) = running e"
  by (simp_all add: dragstarted_def Let_def)

lemma dragged_pin:
  "i < length (sim_nodes e) \<Longrightarrow>
     fx (sim_nodes (dragged pointer i e) ! i) = Some (fst pointer) \<and>
     fy (sim_nodes (dragged pointer i e) ! i) = Some (snd pointer)"
  by (simp add: dragged_def)

lemma dragended_pin:
  "i < length (sim_nodes e) \<Longrightarrow>
     fx (sim_nodes (dragended active i e) ! i) = None \<and>
     fy (sim_nodes (dragended active i e) ! i) = None"
  by (simp add: dragended_def Let_def)

lemma dragended_cool:
  "alphaTarget (dragended 0 i e) = 0"
  "active \<noteq> 0 \<Longrightarrow> alphaTarget (dragended active i e) = alphaTarget e"
  by (simp_all add: dragended_def Let_def)

subsection \<open>Steps of a pinned node\<close>

lemma step_pin:
  assumes "i < length (sim_nodes e)"
  shows "fx (sim_nodes (step lib e) ! i) = fx (sim_nodes e ! i)"
    and "fy (sim_nodes (step lib e) ! i) = fy (sim_nodes e ! i)"
  using assms by (simp_all add: tick_pin)

lemma steps_keep_pin:
  "i < length (sim_nodes e) \<Longrightarrow>
     length (sim_nodes ((step lib ^^ k) e)) = length (sim_nodes e) \<and>
     fx (sim_nodes ((step lib ^^ k) e) ! i) = fx (sim_nodes e ! i) \<and>
     fy (sim_nodes ((step lib ^^ k) e) ! i) = fy (sim_nodes e ! i)"
  by (induction k) (simp_all add: tick_pin)

lemma steps_pinned:
  assumes "i < length (sim_nodes e)"
    and "fx (sim_nodes e ! i) = Some px" and "fy (sim_nodes e ! i) = Some py"
  shows "x (sim_nodes ((step lib ^^ Suc k) e) ! i) = px \<and>
         y (sim_nodes ((step lib ^^ Suc k) e) ! i) = py"
proof -
  let ?e = "(step lib ^^ k) e"
  from steps_keep_pin[OF assms(1), where lib=lib and k=k] assms
  have "i < length (sim_nodes ?e)" "fx (sim_nodes ?e ! i) = Some px" "fy (sim_nodes ?e ! i) = Some py"
    by simp_all
  then show ?thesis
    by (simp add: tick_pinned)
qed

text \<open>
  While a gesture is in progress on a drag behaviour, the alpha target of its simulation is
  0.3: the first pointer-down sets it, a frame and a pointer-move leave it, and a pointer-up
  lowers it only when it ends the last gesture.
\<close>

lemma drag_event_target:
  assumes "0 < fst st \<longrightarrow> alphaTarget (snd st) = 0.3"
  shows "0 < fst (drag_event lib st ev) \<longrightarrow> alphaTarget (snd (drag_event lib st ev)) = 0.3"
proof -
  obtain n e where st: "st = (n, e)" by (cases st)
  show ?thesis
  proof (cases ev)
    case (PointerDown i)
    with assms st show ?thesis
      by (cases "n = 0") (simp_all add: dragstarted_reheat)
  next
    case (PointerMove p i)
    with assms st show ?thesis by simp
  next
    case (PointerUp i)
    with assms st show ?thesis
      by (cases n) (auto simp: dragended_cool)
  next
    case TimerFrame
    with assms st show ?thesis by simp
  qed
qed

lemma drag_events_snoc:
  "drag_events lib e (events @ [ev]) = drag_event lib (drag_events lib e events) ev"
  by (simp add: drag_events_def)

lemma drag_events_target:
  "0 < fst (drag_events lib e events) \<longrightarrow> alphaTarget (snd (drag_events lib e events)) = 0.3"
proof (induction events rule: rev_induct)
  case Nil
  show ?case by (simp add: drag_events_def)
next
  case (snoc ev events)
  show ?case
    unfolding drag_events_snoc using snoc.IH by (rule drag_event_target)
qed

lemma first_simulation_eq:
  "first_simulation = register_and_draw (800, 600)
          [\<lparr>source_node = 0, target_node = 1, link_relationship = ''to'', link_index = 0\<rparr>]
          (forceSimulation d3_unforced (nodes two_nodes))"
  by (simp add: first_simulation_def mounted_eq)

lemma first_simulation_length: "length (sim_nodes first_simulation) = 2"
  by (simp add: first_simulation_eq register_and_draw_def sim_nodes_two)

lemma pinned_simulation_pin:
  "0 < length (sim_nodes pinned_simulation) \<and>
   fx (sim_nodes pinned_simulation ! 0) = Some 50 \<and> fy (sim_nodes pinned_simulation ! 0) = Some 60"
  using dragged_pin[of 0 "dragstarted 0 0 first_simulation" "(50, 60)"]
  by (simp add: pinned_simulation_def first_simulation_length)

lemma pinned_behaviour:
  "drag_events d3_unforced first_simulation [PointerDown 0, PointerMove (50, 60) 0]
     = (1, pinned_simulation)"
  by (simp add: drag_events_def pinned_simulation_def)

lemma two_fingers_behaviour:
  "drag_events d3_unforced first_simulation [PointerDown 0, PointerDown 1] = (2, two_fingers)"
  by (simp add: drag_events_def two_fingers_def numeral_2_eq_2)

text \<open>
  Claim C5, as the code has it. In every state a drag behaviour can reach from a
  simulation by pointer events and frames: pointer-down on a node pins it at its current
  position and leaves the alpha target at 0.3 (the handler raises it and restarts the timer
  when no other gesture is in progress, and finds it raised otherwise). Pointer-move sets
  the pin to the pointer position. Pointer-up clears the pin; it lowers the alpha target to
  0 when it ends the only gesture in progress, and leaves it at 0.3 while another gesture
  is in progress. While a node is pinned at \<open>(px, py)\<close>, its position after every step is
  exactly \<open>(px, py)\<close>, whatever the forces do.
\<close>

theorem drag_pins_node:
  assumes "st = drag_events lib sim events" and "i < length (sim_nodes (snd st))"
  shows "fx (sim_nodes (snd (drag_event lib st (PointerDown i))) ! i) = Some (x (sim_nodes (snd st) ! i)) \<and>
         fy (sim_nodes (snd (drag_event lib st (PointerDown i))) ! i) = Some (y (sim_nodes (snd st) ! i)) \<and>
         alphaTarget (snd (drag_event lib st (PointerDown i))) = 0.3 \<and>
         (fst st = 0 \<longrightarrow> running (snd (drag_event lib st (PointerDown i)))) \<and>
         (0 < fst st \<longrightarrow>
            fx (sim_nodes (snd (drag_event lib st (PointerMove pointer i))) ! i) = Some (fst pointer) \<and>
            fy (sim_nodes (snd (drag_event lib st (PointerMove pointer i))) ! i) = Some (snd pointer) \<and>
            fx (sim_nodes (snd (drag_event lib st (PointerUp i))) ! i) = None \<and>
            fy (sim_nodes (snd (drag_event lib st (PointerUp i))) ! i) = None \<and>
            (fst st = 1 \<longrightarrow> alphaTarget (snd (drag_event lib st (PointerUp i))) = 0) \<and>
            (1 < fst st \<longrightarrow> alphaTarget (snd (drag_event lib st (PointerUp i))) = 0.3)) \<and>
         (fx (sim_nodes (snd st) ! i) = Some px \<and> fy (sim_nodes (snd st) ! i) = Some py \<longrightarrow>
            x (sim_nodes ((step lib ^^ Suc k) (snd st)) ! i) = px \<and>
            y (sim_nodes ((step lib ^^ Suc k) (snd st)) ! i) = py)"
proof -
  obtain n e where st: "st = (n, e)" by (cases st)
  with assms(2) have i: "i < length (sim_nodes e)" by simp
  from assms(1) st have "drag_events lib sim events = (n, e)"
    by simp
  with drag_events_target[of lib sim events]
  have inv: "0 < n \<longrightarrow> alphaTarget e = 0.3" by simp
  have down: "alphaTarget (dragstarted n i e) = 0.3"
    using inv by (cases "n = 0") (simp_all add: dragstarted_reheat)
  have start: "n = 0 \<longrightarrow> running (dragstarted n i e)"
    by (simp add: dragstarted_reheat)
  have up: "0 < n \<longrightarrow>
      fx (sim_nodes (snd (drag_event lib (n, e) (PointerUp i))) ! i) = None \<and>
      fy (sim_nodes (snd (drag_event lib (n, e) (PointerUp i))) ! i) = None \<and>
      (n = 1 \<longrightarrow> alphaTarget (snd (drag_event lib (n, e) (PointerUp i))) = 0) \<and>
      (1 < n \<longrightarrow> alphaTarget (snd (drag_event lib (n, e) (PointerUp i))) = 0.3)"
  proof (cases n)
    case 0
    then show ?thesis by simp
  next
    case (Suc m)
    with inv dragended_pin[OF i, of m] show ?thesis
      by (cases "m = 0") (simp_all add: dragended_cool)
  qed
  from down start up dragstarted_pin[OF i, of n] dragged_pin[OF i, of pointer]
    steps_pinned[OF i, where px=px and py=py and lib=lib and k=k]
  show ?thesis
    unfolding st by (simp del: funpow.simps)
qed

theorem drag_pins_node_witness:
  "drag_events d3_unforced first_simulation [PointerDown 0, PointerMove (50, 60) 0]
     = (1, pinned_simulation) \<and>
   0 < length (sim_nodes pinned_simulation) \<and>
   fx (sim_nodes pinned_simulation ! 0) = Some 50 \<and> fy (sim_nodes pinned_simulation ! 0) = Some 60 \<and>
   x (sim_nodes ((step d3_unforced ^^ Suc 2) pinned_simulation) ! 0) = 50 \<and>
   y (sim_nodes ((step d3_unforced ^^ Suc 2) pinned_simulation) ! 0) = 60 \<and>
   alphaTarget (snd (drag_event d3_unforced (1, pinned_simulation) (PointerDown 0))) = 0.3 \<and>
   fx (sim_nodes (snd (drag_event d3_unforced (1, pinned_simulation) (PointerUp 0))) ! 0) = None \<and>
   alphaTarget (snd (drag_event d3_unforced (1, pinned_simulation) (PointerUp 0))) = 0 \<and>
   drag_events d3_unforced first_simulation [PointerDown 0, PointerDown 1] = (2, two_fingers) \<and>
   alphaTarget (snd (drag_event d3_unforced (2, two_fingers) (PointerUp 1))) = 0.3"
proof -
  have len: "length (sim_nodes two_fingers) = 2"
    by (simp add: two_fingers_def first_simulation_length)
  from drag_pins_node [where st="(1, pinned_simulation)" and lib=d3_unforced
      and sim=first_simulation and events="[PointerDown 0, PointerMove (50, 60) 0]"
      and i=0 and pointer="(50, 60)" and px=50 and py=60 and k=2]
    pinned_behaviour pinned_simulation_pin
  have one:
    "x (sim_nodes ((step d3_unforced ^^ Suc 2) pinned_simulation) ! 0) = 50 \<and>
     y (sim_nodes ((step d3_unforced ^^ Suc 2) pinned_simulation) ! 0) = 60 \<and>
     alphaTarget (snd (drag_event d3_unforced (1, pinned_simulation) (PointerDown 0))) = 0.3 \<and>
     fx (sim_nodes (snd (drag_event d3_unforced (1, pinned_simulation) (PointerUp 0))) ! 0) = None \<and>
     alphaTarget (snd (drag_event d3_unforced (1, pinned_simulation) (PointerUp 0))) = 0"
    by (simp del: funpow.simps drag_event.simps)
  from drag_pins_node [where st="(2, two_fingers)" and lib=d3_unforced
      and sim=first_simulation and events="[PointerDown 0, PointerDown 1]" and i=1]
    two_fingers_behaviour len
  have two: "alphaTarget (snd (drag_event d3_unforced (2, two_fingers) (PointerUp 1))) = 0.3"
    by (simp del: funpow.simps drag_event.simps)
  from one two pinned_behaviour two_fingers_behaviour pinned_simulation_pin show ?thesis
    by (simp del: funpow.simps drag_event.simps)
qed

text \<open>
  Claim C5 as stated, for every pointer-up, fails: with two fingers each holding a node,
  lifting one of them arrives with \<open>event.active = 1\<close>, the guard \<^verbatim>\<open>if (!event.active)\<close>
  skips \<^verbatim>\<open>simulation.alphaTarget(0)\<close>, and the alpha target stays at 0.3.
\<close>

theorem dragended_keeps_alphaTarget:
  "alphaTarget (dragended 1 1 two_fingers) \<noteq> 0"
  by (simp add: two_fingers_def dragended_cool dragstarted_reheat)

subsection \<open>Teardown\<close>

lemma frames_stopped: "\<not> running e \<Longrightarrow> (frame lib ^^ n) e = e"
  by (induction n) (simp_all add: frame_stopped)

lemma animation_frames:
  "(animation_frame lib ^^ n) c = c\<lparr>simulations := map (frame lib ^^ n) (simulations c)\<rparr>"
proof (induction n)
  case 0
  then show ?case by simp
next
  case (Suc n)
  then show ?case by (simp add: animation_frame_def)
qed

lemma run_cleanup_fields [simp]:
  "data (run_cleanup c) = data c" "dimensions (run_cleanup c) = dimensions c"
  "svgRef (run_cleanup c) = svgRef c" "svg (run_cleanup c) = svg c"
  "cleanup (run_cleanup c) = None"
  "length (simulations (run_cleanup c)) = length (simulations c)"
  by (simp_all add: run_cleanup_def split: option.split)

lemma run_cleanup_nth:
  "cleanup c = Some k \<Longrightarrow> k < length (simulations c) \<Longrightarrow>
     simulations (run_cleanup c) ! k = stop (simulations c ! k)"
  by (simp add: run_cleanup_def)

lemma run_effect_prefix:
  "\<exists>new. simulations (state_of (run_effect lib c)) = simulations c @ new"
  by (simp add: run_effect_def state_of_def Let_def split: sum.split)

lemma run_effect_nth:
  "k < length (simulations c) \<Longrightarrow>
     simulations (state_of (run_effect lib c)) ! k = simulations c ! k"
  using run_effect_prefix[of lib c] by (auto simp: nth_append)

lemma run_effect_length:
  "length (simulations c) \<le> length (simulations (state_of (run_effect lib c)))"
  using run_effect_prefix[of lib c] by auto

lemma stop_not_running [simp]: "\<not> running (stop e)"
  by (simp add: stop_def)

text \<open>
  Claim C8. After the teardown of a live effect run, by unmounting or by a snapshot
  replacement, its simulation is the one it was at teardown with the timer stopped, however
  many animation frames follow: no tick fires, and no position, velocity or \<open>alpha\<close>
  changes.
\<close>

theorem teardown_stops_stepping:
  assumes "cleanup c = Some k" and "k < length (simulations c)"
  shows "simulations ((animation_frame lib ^^ n) (Unmount c)) ! k = stop (simulations c ! k) \<and>
         simulations ((animation_frame lib ^^ n) (state_of (Replace lib snapshot c))) ! k
           = stop (simulations c ! k)"
proof
  have "simulations (Unmount c) ! k = stop (simulations c ! k)"
    using assms by (simp add: Unmount_def run_cleanup_nth)
  moreover have "k < length (simulations (Unmount c))"
    using assms by (simp add: Unmount_def)
  ultimately show "simulations ((animation_frame lib ^^ n) (Unmount c)) ! k
      = stop (simulations c ! k)"
    by (simp add: animation_frames frames_stopped)
next
  let ?c = "run_cleanup (c\<lparr>data := snapshot\<rparr>)"
  have k: "k < length (simulations ?c)"
    using assms by simp
  have "simulations ?c ! k = stop (simulations c ! k)"
    using assms run_cleanup_nth[of "c\<lparr>data := snapshot\<rparr>" k] by simp
  with k have "simulations (state_of (Replace lib snapshot c)) ! k = stop (simulations c ! k)"
    by (simp add: Replace_def run_effect_nth)
  moreover have "k < length (simulations (state_of (Replace lib snapshot c)))"
    using k run_effect_length[of ?c lib] by (simp add: Replace_def)
  ultimately show "simulations ((animation_frame lib ^^ n) (state_of (Replace lib snapshot c))) ! k
      = stop (simulations c ! k)"
    by (simp add: animation_frames frames_stopped)
qed

lemma mounted_active: "cleanup mounted = Some 0" "length (simulations mounted) = 1"
  "svg mounted = Some 0" "data mounted = two_nodes" "svgRef mounted"
  by (simp_all add: mounted_eq)

theorem teardown_stops_stepping_witness:
  "cleanup mounted = Some 0 \<and> 0 < length (simulations mounted) \<and>
   simulations ((animation_frame d3_unforced ^^ 5) (Unmount mounted)) ! 0
     = stop (simulations mounted ! 0) \<and>
   simulations ((animation_frame d3_unforced ^^ 5) (state_of (Replace d3_unforced dangling mounted))) ! 0
     = stop (simulations mounted ! 0)"
  using teardown_stops_stepping [where c=mounted and k=0 and lib=d3_unforced and n=5
      and snapshot=dangling] mounted_active
  by simp

subsection \<open>Empty snapshot\<close>

text \<open>
  With a snapshot of zero nodes the effect returns at its guard: mounting leaves no
  simulation, no registered cleanup and an \<^verbatim>\<open>svg\<close> without children, and no error; a
  replacement by such a snapshot only runs the previous cleanup and creates no simulation,
  and the children of the \<^verbatim>\<open>svg\<close> are what they were.
\<close>

lemma empty_snapshot_returns:
  assumes "nodes snapshot = []"
  shows "Mount lib snapshot =
           Returned \<lparr>data = snapshot, dimensions = (800, 600), svgRef = True,
                     simulations = [], cleanup = None, svg = None\<rparr> \<and>
         Replace lib snapshot c = Returned ((run_cleanup c)\<lparr>data := snapshot\<rparr>) \<and>
         length (simulations ((run_cleanup c)\<lparr>data := snapshot\<rparr>)) = length (simulations c) \<and>
         cleanup ((run_cleanup c)\<lparr>data := snapshot\<rparr>) = None \<and>
         svg ((run_cleanup c)\<lparr>data := snapshot\<rparr>) = svg c"
proof -
  have "run_cleanup (c\<lparr>data := snapshot\<rparr>) = (run_cleanup c)\<lparr>data := snapshot\<rparr>"
    by (simp add: run_cleanup_def split: option.split)
  with assms show ?thesis
    by (simp add: Mount_def first_render_def Replace_def run_effect_def)
qed

subsection \<open>Looking identifiers up\<close>

lemma map_of_Map_set: "map_of (Map_set m k v) = (map_of m)(k \<mapsto> v)"
  by (induction m) (auto simp: fun_eq_iff)

lemma map_of_Map_fold:
  "map_of (foldl (\<lambda>m e. Map_set m (fst e) (snd e)) m es) k =
     (case map_of (rev es) k of None \<Rightarrow> map_of m k | Some v \<Rightarrow> Some v)"
  by (induction es arbitrary: m) (auto simp: map_of_Map_set split: option.split)

lemma Map_get_new: "Map_get (Map_new es) k = map_of (rev es) k"
  by (simp add: Map_get_def Map_new_def map_of_Map_fold split: option.split)

lemma Map_get_new_None: "Map_get (Map_new es) k = None \<longleftrightarrow> k \<notin> fst ` set es"
  by (simp add: Map_get_new map_of_eq_None_iff)

lemma Map_get_new_Some: "Map_get (Map_new es) k = Some v \<Longrightarrow> (k, v) \<in> set es"
  by (auto simp: Map_get_new dest: map_of_SomeD)

lemma resolve_links_Inl:
  "resolve_links m i ds = Inl err \<Longrightarrow> \<exists>nodeId. err = NodeNotFound nodeId \<and> Map_get m nodeId = None"
  by (induction ds arbitrary: i) (auto simp: find_def split: option.splits sum.splits)

lemma resolve_links_Inr:
  "resolve_links m i ds = Inr ls \<Longrightarrow>
     length ls = length ds \<and>
     (\<forall>d \<in> set ds. Map_get m (source d) \<noteq> None \<and> Map_get m (target d) \<noteq> None) \<and>
     (\<forall>l \<in> set ls. source_node l \<in> ran (Map_get m) \<and> target_node l \<in> ran (Map_get m))"
proof (induction ds arbitrary: i ls)
  case Nil
  then show ?case by simp
next
  case (Cons d ds)
  from Cons.prems obtain s t rest where
    s: "Map_get m (source d) = Some s" and t: "Map_get m (target d) = Some t"
    and rest: "resolve_links m (Suc i) ds = Inr rest"
    and ls: "ls = \<lparr>source_node = s, target_node = t,
                   link_relationship = relationship d, link_index = i\<rparr> # rest"
    by (auto simp: find_def split: option.splits sum.splits)
  from Cons.IH[OF rest] s t ls show ?case
    by (auto simp: ran_def)
qed

lemma seeded_entries:
  "map (\<lambda>d. (node_id d, index d)) (sim_nodes (forceSimulation lib ds))
     = map (\<lambda>(i, d). (node_id d, i)) (enumerate 0 ds)"
  by (simp add: forceSimulation_def seed_node_def comp_def case_prod_unfold)

lemma seeded_keys:
  "fst ` set (map (\<lambda>d. (node_id d, index d)) (sim_nodes (forceSimulation lib ds)))
     = set (map node_id ds)"
proof -
  have "map fst (map (\<lambda>(i, d). (node_id d, i)) (enumerate 0 ds))
          = map node_id (map snd (enumerate 0 ds))"
    by (simp only: map_map comp_def case_prod_unfold fst_conv)
  then have "map fst (map (\<lambda>(i, d). (node_id d, i)) (enumerate 0 ds)) = map node_id ds"
    by (simp only: map_snd_enumerate)
  then have "set (map fst (map (\<lambda>(i, d). (node_id d, i)) (enumerate 0 ds))) = set (map node_id ds)"
    by (rule arg_cong)
  then show ?thesis
    by (simp only: seeded_entries set_map)
qed

lemma seeded_values:
  "(k, v) \<in> set (map (\<lambda>d. (node_id d, index d)) (sim_nodes (forceSimulation lib ds)))
     \<Longrightarrow> v < length ds"
  by (auto simp: seeded_entries in_set_enumerate_eq)

lemma length_seeded [simp]: "length (sim_nodes (forceSimulation lib ds)) = length ds"
  by (simp add: forceSimulation_def)

lemma forceLink_initialize_Inl:
  assumes "forceLink_initialize (sim_nodes (forceSimulation lib ds)) ls = Inl err"
  shows "\<exists>nodeId. err = NodeNotFound nodeId \<and> nodeId \<notin> set (map node_id ds)"
proof -
  from assms obtain nodeId where "err = NodeNotFound nodeId"
    and "Map_get (Map_new (map (\<lambda>d. (node_id d, index d)) (sim_nodes (forceSimulation lib ds))))
           nodeId = None"
    unfolding forceLink_initialize_def by (blast dest: resolve_links_Inl)
  then show ?thesis
    using seeded_keys[of lib ds] by (auto simp: Map_get_new_None)
qed

lemma forceLink_initialize_Inr:
  assumes "forceLink_initialize (sim_nodes (forceSimulation lib ds)) ls = Inr rs"
  shows "length rs = length ls"
    and "\<forall>d \<in> set ls. source d \<in> set (map node_id ds) \<and> target d \<in> set (map node_id ds)"
    and "\<forall>l \<in> set rs. source_node l < length ds \<and> target_node l < length ds"
proof -
  let ?es = "map (\<lambda>d. (node_id d, index d)) (sim_nodes (forceSimulation lib ds))"
  from assms have r: "resolve_links (Map_new ?es) 0 ls = Inr rs"
    by (simp add: forceLink_initialize_def)
  note R = resolve_links_Inr[OF r]
  from R show "length rs = length ls"
    by simp
  from R have "\<forall>d \<in> set ls. source d \<in> fst ` set ?es \<and> target d \<in> fst ` set ?es"
    by (simp add: Map_get_new_None)
  then show "\<forall>d \<in> set ls. source d \<in> set (map node_id ds) \<and> target d \<in> set (map node_id ds)"
    by (simp only: seeded_keys)
  have "v < length ds" if "v \<in> ran (Map_get (Map_new ?es))" for v
  proof -
    from that obtain k where "Map_get (Map_new ?es) k = Some v"
      by (auto simp: ran_def)
    then have "(k, v) \<in> set ?es"
      by (rule Map_get_new_Some)
    then show ?thesis
      by (rule seeded_values)
  qed
  with R show "\<forall>l \<in> set rs. source_node l < length ds \<and> target_node l < length ds"
    by blast
qed

subsection \<open>Resolved links stay resolved\<close>

lemma resolved_forceSimulation: "resolved (forceSimulation lib ds)"
  by (simp add: resolved_def forceSimulation_def)

lemma resolved_register_and_draw:
  "\<forall>l \<in> set rs. source_node l < length (sim_nodes sim) \<and> target_node l < length (sim_nodes sim)
     \<Longrightarrow> resolved (register_and_draw dims rs sim)"
  by (simp add: resolved_def register_and_draw_def)

lemma resolved_frame: "resolved e \<Longrightarrow> resolved (frame lib e)"
  by (simp add: resolved_def)

lemma resolved_handle: "resolved e \<Longrightarrow> resolved (handle lib e ev)"
  by (cases ev) (simp_all add: resolved_def)

lemma run_effect_resolved:
  assumes "\<forall>e \<in> set (simulations c). resolved e"
  shows "\<forall>e \<in> set (simulations (state_of (run_effect lib c))). resolved e"
proof (cases "forceLink_initialize (sim_nodes (forceSimulation lib (nodes (data c)))) (links (data c))")
  case (Inl err)
  with assms show ?thesis
    by (auto simp: run_effect_def state_of_def Let_def resolved_forceSimulation)
next
  case (Inr rs)
  from forceLink_initialize_Inr(3)[OF Inr]
  have "resolved (register_and_draw (dimensions c) rs (forceSimulation lib (nodes (data c))))"
    by (intro resolved_register_and_draw) simp
  with assms Inr show ?thesis
    by (auto simp: run_effect_def state_of_def Let_def)
qed

text \<open>
  When a link of the snapshot has a source or a target that is no node's identifier, an
  effect run either returns at its guard (no nodes, no \<^verbatim>\<open>svg\<close>) without creating a
  simulation, or throws the library's node-not-found error while the link force is
  registered: before any tick, and leaving the simulation that \<^verbatim>\<open>d3.forceSimulation(nodes)\<close>
  has created with no link, no force and no tick listener, and with its timer running. In
  every case each link of each simulation refers to node records of its own array, also
  after a step: stepping never follows a link to a missing node.
\<close>

lemma unknown_endpoint_throws:
  assumes "d \<in> set (links (data c))"
    and "source d \<notin> set (map node_id (nodes (data c))) \<or>
         target d \<notin> set (map node_id (nodes (data c)))"
  shows "(((nodes (data c) = [] \<or> \<not> svgRef c) \<and> run_effect lib c = Returned c) \<or>
          (\<exists>nodeId. nodeId \<notin> set (map node_id (nodes (data c))) \<and>
             run_effect lib c =
               Threw (NodeNotFound nodeId)
                 (c\<lparr>simulations := simulations c @ [forceSimulation lib (nodes (data c))],
                    svg := None\<rparr>) \<and>
             sim_links (forceSimulation lib (nodes (data c))) = [] \<and>
             centering (forceSimulation lib (nodes (data c))) = None \<and>
             \<not> tick_listener (forceSimulation lib (nodes (data c))) \<and>
             running (forceSimulation lib (nodes (data c))))) \<and>
         ((\<forall>e \<in> set (simulations c). resolved e) \<longrightarrow>
          (\<forall>e \<in> set (simulations (state_of (run_effect lib c))).
             resolved e \<and> resolved (frame lib e)))"
proof
  show "((nodes (data c) = [] \<or> \<not> svgRef c) \<and> run_effect lib c = Returned c) \<or>
          (\<exists>nodeId. nodeId \<notin> set (map node_id (nodes (data c))) \<and>
             run_effect lib c =
               Threw (NodeNotFound nodeId)
                 (c\<lparr>simulations := simulations c @ [forceSimulation lib (nodes (data c))],
                    svg := None\<rparr>) \<and>
             sim_links (forceSimulation lib (nodes (data c))) = [] \<and>
             centering (forceSimulation lib (nodes (data c))) = None \<and>
             \<not> tick_listener (forceSimulation lib (nodes (data c))) \<and>
             running (forceSimulation lib (nodes (data c))))"
  proof (cases "nodes (data c) = [] \<or> \<not> svgRef c")
    case True
    then show ?thesis
      by (auto simp: run_effect_def)
  next
    case False
    let ?sim = "forceSimulation lib (nodes (data c))"
    have "\<exists>err. forceLink_initialize (sim_nodes ?sim) (links (data c)) = Inl err"
    proof (cases "forceLink_initialize (sim_nodes ?sim) (links (data c))")
      case (Inl err)
      then show ?thesis by blast
    next
      case (Inr rs)
      from forceLink_initialize_Inr(2)[OF Inr] assms show ?thesis
        by blast
    qed
    then obtain err where err: "forceLink_initialize (sim_nodes ?sim) (links (data c)) = Inl err"
      by blast
    from forceLink_initialize_Inl[OF err] obtain nodeId where
      "err = NodeNotFound nodeId" "nodeId \<notin> set (map node_id (nodes (data c)))"
      by blast
    with err False have "nodeId \<notin> set (map node_id (nodes (data c))) \<and>
        run_effect lib c =
          Threw (NodeNotFound nodeId) (c\<lparr>simulations := simulations c @ [?sim], svg := None\<rparr>)"
      by (simp add: run_effect_def Let_def)
    moreover have "sim_links ?sim = [] \<and> centering ?sim = None \<and> \<not> tick_listener ?sim \<and>
        running ?sim"
      by (simp add: forceSimulation_def)
    ultimately show ?thesis
      by blast
  qed
next
  show "(\<forall>e \<in> set (simulations c). resolved e) \<longrightarrow>
          (\<forall>e \<in> set (simulations (state_of (run_effect lib c))).
             resolved e \<and> resolved (frame lib e))"
    using run_effect_resolved[of c lib] by (auto intro: resolved_frame)
qed

lemma dangling_facts:
  "\<lparr>source = ''A'', target = ''Nonexistent'', relationship = ''to''\<rparr> \<in> set (links dangling)"
  "''Nonexistent'' \<notin> set (map node_id (nodes dangling))"
  "nodes dangling \<noteq> []"
  by (simp_all add: dangling_def)

lemma resolved_stop: "resolved (stop e) = resolved e"
  by (simp add: resolved_def stop_def)

lemma run_cleanup_resolved:
  assumes "\<forall>e \<in> set (simulations c). resolved e"
  shows "\<forall>e \<in> set (simulations (run_cleanup c)). resolved e"
proof (cases "cleanup c")
  case None
  with assms show ?thesis
    by (simp add: run_cleanup_def)
next
  case (Some k)
  show ?thesis
  proof (cases "k < length (simulations c)")
    case True
    with assms have "resolved (stop (simulations c ! k))"
      by (simp add: resolved_stop)
    with assms Some show ?thesis
      using set_update_subset_insert[of "simulations c" k "stop (simulations c ! k)"]
      by (auto simp: run_cleanup_def)
  next
    case False
    then have "length (simulations c) \<le> k"
      by simp
    then have "(simulations c)[k := stop (simulations c ! k)] = simulations c"
      by (rule list_update_beyond)
    with assms Some show ?thesis
      by (simp add: run_cleanup_def)
  qed
qed

lemma mounted_resolved: "\<forall>e \<in> set (simulations mounted). resolved e"
  unfolding mounted_def Mount_def
  by (rule run_effect_resolved) (simp add: first_render_def)

lemma dangling_link_unresolved:
  "forceLink_initialize (sim_nodes (forceSimulation lib (nodes dangling))) (links dangling)
     = Inl (NodeNotFound ''Nonexistent'')"
  by (simp add: forceLink_initialize_def forceSimulation_def dangling_def seed_node_def
      Map_new_def find_def Map_get_def)

lemma Mount_dangling:
  "Mount lib dangling =
     Threw (NodeNotFound ''Nonexistent'')
       \<lparr>data = dangling, dimensions = (800, 600), svgRef = True,
         simulations = [forceSimulation lib (nodes dangling)], cleanup = None, svg = None\<rparr>"
  by (simp add: Mount_def first_render_def run_effect_def dangling_link_unresolved dangling_facts)

lemma orphan_frame:
  "alpha (frame lib (forceSimulation lib ds)) = 1 - alphaDecay lib"
  by (simp add: frame_def forceSimulation_def step_def tick_def Let_def)

text \<open>
  Claim C2, at a snapshot of one node \<open>A\<close> and a link from \<open>A\<close> to an identifier that no
  node has. Mounting throws the node-not-found error of the link force. The simulation
  created on the line before is by then scheduled, and the effect is left before its
  cleanup is returned: no cleanup is registered, unmounting stops nothing, and the next
  animation frame ticks the simulation, its \<open>alpha\<close> going from 1 to 0.9772. The failure
  does not come before the stepping loop starts.
\<close>

theorem unknown_endpoint_leaves_timer:
  "Mount d3_unforced dangling =
     Threw (NodeNotFound ''Nonexistent'')
       \<lparr>data = dangling, dimensions = (800, 600), svgRef = True,
         simulations = [forceSimulation d3_unforced (nodes dangling)],
         cleanup = None, svg = None\<rparr> \<and>
   running (forceSimulation d3_unforced (nodes dangling)) \<and>
   alpha (forceSimulation d3_unforced (nodes dangling)) = 1 \<and>
   simulations (Unmount (state_of (Mount d3_unforced dangling)))
     = [forceSimulation d3_unforced (nodes dangling)] \<and>
   alpha (simulations (animation_frame d3_unforced
            (Unmount (state_of (Mount d3_unforced dangling)))) ! 0) = 0.9772"
proof -
  have "simulations (Unmount (state_of (Mount d3_unforced dangling)))
          = [forceSimulation d3_unforced (nodes dangling)]"
    by (simp add: Mount_dangling state_of_def Unmount_def run_cleanup_def)
  moreover from this
  have "alpha (simulations (animation_frame d3_unforced
            (Unmount (state_of (Mount d3_unforced dangling)))) ! 0) = 0.9772"
    by (simp add: animation_frame_def orphan_frame d3_unforced_def)
  moreover have "running (forceSimulation d3_unforced (nodes dangling)) \<and>
      alpha (forceSimulation d3_unforced (nodes dangling)) = 1"
    by (simp add: forceSimulation_def)
  ultimately show ?thesis
    using Mount_dangling[of d3_unforced] by simp
qed

subsection \<open>Resize\<close>

lemma seeded_positions:
  "map (\<lambda>d. (x d, y d)) (sim_nodes (forceSimulation lib ds))
     = map (initial_position lib) [0..<length ds]"
proof (rule nth_equalityI)
  show "length (map (\<lambda>d. (x d, y d)) (sim_nodes (forceSimulation lib ds)))
          = length (map (initial_position lib) [0..<length ds])"
    by simp
next
  fix i assume "i < length (map (\<lambda>d. (x d, y d)) (sim_nodes (forceSimulation lib ds)))"
  then have i: "i < length ds"
    by simp
  then have "sim_nodes (forceSimulation lib ds) ! i = seed_node lib i (ds ! i)"
    by (simp add: forceSimulation_def nth_enumerate_eq)
  with i show "map (\<lambda>d. (x d, y d)) (sim_nodes (forceSimulation lib ds)) ! i
                 = map (initial_position lib) [0..<length ds] ! i"
    by (simp add: seed_node_def)
qed

lemma seeded_at_rest:
  "\<forall>d \<in> set (sim_nodes (forceSimulation lib ds)). vx d = 0 \<and> vy d = 0 \<and> fx d = None \<and> fy d = None"
  by (auto simp: forceSimulation_def seed_node_def)

lemma register_and_draw_fields [simp]:
  "sim_nodes (register_and_draw dims rs sim) = sim_nodes sim"
  "sim_links (register_and_draw dims rs sim) = rs"
  "centering (register_and_draw dims rs sim) = Some (fst dims / 2, snd dims / 2)"
  "alpha (register_and_draw dims rs sim) = alpha sim"
  "alphaTarget (register_and_draw dims rs sim) = alphaTarget sim"
  "running (register_and_draw dims rs sim) = running sim"
  "tick_listener (register_and_draw dims rs sim)"
  by (simp_all add: register_and_draw_def)

lemma run_effect_Returned:
  assumes "nodes (data c) \<noteq> []" and "svgRef c" and "run_effect lib c = Returned c'"
  shows "\<exists>rs. forceLink_initialize (sim_nodes (forceSimulation lib (nodes (data c)))) (links (data c))
               = Inr rs \<and>
             c' = c\<lparr>simulations := simulations c @
                      [register_and_draw (dimensions c) rs (forceSimulation lib (nodes (data c)))],
                    cleanup := Some (length (simulations c)),
                    svg := Some (length (simulations c))\<rparr>"
  using assms by (auto simp: run_effect_def Let_def split: sum.splits)

lemma Resize_Returned:
  assumes "cleanup c = Some k" and "k < length (simulations c)"
    and "nodes (data c) \<noteq> []" and "svgRef c"
    and "Resize lib newViewport c = Returned c'"
  shows "\<exists>sim. simulations c' = (simulations c)[k := stop (simulations c ! k)] @ [sim] \<and>
           cleanup c' = Some (length (simulations c)) \<and>
           svg c' = Some (length (simulations c)) \<and>
           data c' = data c \<and> dimensions c' = newViewport \<and>
           sim_nodes sim = sim_nodes (forceSimulation lib (nodes (data c))) \<and>
           centering sim = Some (fst newViewport / 2, snd newViewport / 2) \<and>
           alpha sim = 1 \<and> running sim \<and>
           list_all (\<lambda>d. vx d = 0 \<and> vy d = 0 \<and> fx d = None \<and> fy d = None) (sim_nodes sim) \<and>
           active_positions c' = map (initial_position lib) [0..<length (nodes (data c))]"
proof -
  let ?c = "run_cleanup (c\<lparr>dimensions := newViewport\<rparr>)"
  let ?seeded = "forceSimulation lib (nodes (data c))"
  have sims: "simulations ?c = (simulations c)[k := stop (simulations c ! k)]"
    using assms(1) by (simp add: run_cleanup_def)
  from assms(3,4,5) have "nodes (data ?c) \<noteq> []" "svgRef ?c" "run_effect lib ?c = Returned c'"
    by (simp_all add: Resize_def)
  from run_effect_Returned[OF this] obtain rs where
    c': "c' = ?c\<lparr>simulations := simulations ?c @ [register_and_draw newViewport rs ?seeded],
                 cleanup := Some (length (simulations c)),
                 svg := Some (length (simulations c))\<rparr>"
    by auto
  let ?sim = "register_and_draw newViewport rs ?seeded"
  have "active_positions c' = map (\<lambda>d. (x d, y d)) (sim_nodes ?seeded)"
    using c' sims by (simp add: active_positions_def nth_append)
  then have pos: "active_positions c' = map (initial_position lib) [0..<length (nodes (data c))]"
    by (simp only: seeded_positions)
  have "alpha ?sim = 1 \<and> running ?sim"
    by (simp add: forceSimulation_def)
  moreover have "list_all (\<lambda>d. vx d = 0 \<and> vy d = 0 \<and> fx d = None \<and> fy d = None) (sim_nodes ?sim)"
    using seeded_at_rest[of lib "nodes (data c)"] by (simp add: list_all_iff)
  ultimately show ?thesis
    using c' sims pos by (intro exI[of _ ?sim]) simp
qed

lemma deliver_fields [simp]:
  "data (deliver lib ev c) = data c" "dimensions (deliver lib ev c) = dimensions c"
  "svgRef (deliver lib ev c) = svgRef c" "svg (deliver lib ev c) = svg c"
  "cleanup (deliver lib ev c) = cleanup c"
  "length (simulations (deliver lib ev c)) = length (simulations c)"
  by (simp_all add: deliver_def split: option.split)

lemma deliver_nth:
  "svg c = Some k \<Longrightarrow> k < length (simulations c) \<Longrightarrow>
     simulations (deliver lib ev c) ! k = handle lib (simulations c ! k) ev"
  by (simp add: deliver_def)

lemma animation_frame_fields [simp]:
  "data (animation_frame lib c) = data c" "dimensions (animation_frame lib c) = dimensions c"
  "svgRef (animation_frame lib c) = svgRef c" "svg (animation_frame lib c) = svg c"
  "cleanup (animation_frame lib c) = cleanup c"
  "simulations (animation_frame lib c) = map (frame lib) (simulations c)"
  by (simp_all add: animation_frame_def)

lemma dragged_away_fields:
  "cleanup dragged_away = Some 0" "svg dragged_away = Some 0" "data dragged_away = two_nodes"
  "svgRef dragged_away" "length (simulations dragged_away) = 1"
  by (simp_all add: dragged_away_def mounted_active)

lemma dragged_away_simulation:
  "simulations dragged_away ! 0 = step d3_unforced pinned_simulation"
proof -
  let ?c1 = "deliver d3_unforced (DragStart 0 0) mounted"
  have 1: "simulations ?c1 ! 0 = dragstarted 0 0 first_simulation"
    using deliver_nth[of mounted 0 d3_unforced "DragStart 0 0"]
    by (simp add: mounted_active first_simulation_def)
  have "simulations (deliver d3_unforced (DragMove (50, 60) 0) ?c1) ! 0
          = dragged (50, 60) 0 (simulations ?c1 ! 0)"
    using deliver_nth[of ?c1 0 d3_unforced "DragMove (50, 60) 0"]
    by (simp add: mounted_active)
  with 1 have "simulations (deliver d3_unforced (DragMove (50, 60) 0) ?c1) ! 0 = pinned_simulation"
    by (simp add: pinned_simulation_def)
  moreover have "running pinned_simulation"
    by (simp add: pinned_simulation_def dragstarted_reheat)
  ultimately show ?thesis
    by (simp add: dragged_away_def mounted_active frame_running)
qed

lemma dragged_away_positions:
  "active_positions dragged_away ! 0 = (50, 60)"
proof -
  have "x (sim_nodes (step d3_unforced pinned_simulation) ! 0) = 50"
    "y (sim_nodes (step d3_unforced pinned_simulation) ! 0) = 60"
    using pinned_simulation_pin tick_pinned[of 0 pinned_simulation] by simp_all
  moreover have "0 < length (sim_nodes (step d3_unforced pinned_simulation))"
    using pinned_simulation_pin by simp
  ultimately show ?thesis
    by (simp add: active_positions_def dragged_away_fields dragged_away_simulation)
qed

lemma Resize_dragged_away:
  "\<exists>c'. Resize d3_unforced (1024, 768) dragged_away = Returned c'"
  by (simp add: Resize_def run_effect_def Let_def dragged_away_fields two_nodes_links_resolved
      two_nodes_nonempty)

lemma dragged_away_active:
  "cleanup dragged_away = Some 0" "0 < length (simulations dragged_away)"
  "nodes (data dragged_away) \<noteq> []" "svgRef dragged_away"
  by (simp_all add: dragged_away_fields two_nodes_nonempty)

lemma resized_positions:
  "active_positions (state_of (Resize d3_unforced (1024, 768) dragged_away)) ! 0 = phyllotaxis 0"
proof -
  from Resize_dragged_away obtain c' where
    r: "Resize d3_unforced (1024, 768) dragged_away = Returned c'"
    by blast
  from Resize_Returned[OF dragged_away_active r]
  have "active_positions c' = map (initial_position d3_unforced) [0..<length (nodes two_nodes)]"
    by (auto simp: dragged_away_fields)
  then have "active_positions c' ! 0 = phyllotaxis 0"
    by (simp add: two_nodes_def d3_unforced_def)
  with r show ?thesis
    by (simp add: state_of_def)
qed

text \<open>
  Claim C1 as stated fails: after the first node was dragged to \<open>(50, 60)\<close>, a resize puts
  it back at its seeded position.
\<close>

theorem resize_resets_positions:
  "active_positions (state_of (Resize d3_unforced (1024, 768) dragged_away))
     \<noteq> active_positions dragged_away"
proof
  assume "active_positions (state_of (Resize d3_unforced (1024, 768) dragged_away))
            = active_positions dragged_away"
  then have "phyllotaxis 0 = (50, 60)"
    by (simp add: resized_positions[symmetric] dragged_away_positions)
  then show False
    by (simp add: phyllotaxis_def)
qed

text \<open>
  Claim C1, as the code has it. \<open>dimensions\<close> is in the dependency list of the simulation
  effect, so a resize with an unchanged snapshot runs the cleanup and the effect body
  again: the simulation that was live is stopped, and a new one is created from fresh
  copies of the snapshot's nodes, each at its seeded position, at rest and unpinned, with
  the centering force at the centre of the new viewport.
\<close>

theorem resize_rebuilds:
  assumes "cleanup c = Some k" and "k < length (simulations c)"
    and "nodes (data c) \<noteq> []" and "svgRef c"
    and "Resize lib newViewport c = Returned c'"
  shows "\<exists>sim. simulations c' = (simulations c)[k := stop (simulations c ! k)] @ [sim] \<and>
           cleanup c' = Some (length (simulations c)) \<and>
           svg c' = Some (length (simulations c)) \<and>
           data c' = data c \<and> dimensions c' = newViewport \<and>
           sim_nodes sim = sim_nodes (forceSimulation lib (nodes (data c))) \<and>
           centering sim = Some (fst newViewport / 2, snd newViewport / 2) \<and>
           alpha sim = 1 \<and> running sim \<and>
           list_all (\<lambda>d. vx d = 0 \<and> vy d = 0 \<and> fx d = None \<and> fy d = None) (sim_nodes sim) \<and>
           active_positions c' = map (initial_position lib) [0..<length (nodes (data c))]"
  using assms by (rule Resize_Returned)

theorem resize_rebuilds_witness:
  "cleanup dragged_away = Some 0 \<and> 0 < length (simulations dragged_away) \<and>
   nodes (data dragged_away) \<noteq> [] \<and> svgRef dragged_away \<and>
   (\<exists>c'. Resize d3_unforced (1024, 768) dragged_away = Returned c' \<and>
      cleanup c' = Some 1 \<and>
      active_positions c' = [phyllotaxis 0, phyllotaxis 1])"
proof -
  from Resize_dragged_away obtain c' where
    r: "Resize d3_unforced (1024, 768) dragged_away = Returned c'"
    by blast
  from resize_rebuilds [OF dragged_away_active r]
  have "cleanup c' = Some (length (simulations dragged_away)) \<and>
        active_positions c'
          = map (initial_position d3_unforced) [0..<length (nodes (data dragged_away))]"
    by blast
  then have "cleanup c' = Some 1 \<and> active_positions c' = [phyllotaxis 0, phyllotaxis 1]"
    by (simp add: dragged_away_fields two_nodes_def d3_unforced_def)
  with r dragged_away_active show ?thesis
    by blast
qed

subsection \<open>The ordinal scale\<close>

lemma snd_color: "snd (color domain v) = (if v \<in> set domain then domain else domain @ [v])"
  by (simp add: color_def)

lemma encounter_extends: "\<exists>ext. encounter domain vs = domain @ ext"
proof (induction vs arbitrary: domain)
  case Nil
  then show ?case by simp
next
  case (Cons v vs)
  obtain ext where "encounter (snd (color domain v)) vs = snd (color domain v) @ ext"
    using Cons.IH by blast
  then show ?case
    by (auto simp: snd_color)
qed

lemma position_of_append: "v \<in> set us \<Longrightarrow> position_of (us @ ws) v = position_of us v"
  by (induction us) auto

lemma position_of_new: "v \<notin> set us \<Longrightarrow> position_of (us @ v # ws) v = length us"
  by (induction us) auto

lemma position_of_encounter:
  "v \<in> set domain \<Longrightarrow> position_of (encounter domain vs) v = position_of domain v"
  using encounter_extends[of domain vs] by (auto simp: position_of_append)

lemma color_by_position:
  "fst (color domain v)
     = schemeCategory10 ! (position_of (snd (color domain v)) v mod length schemeCategory10)"
  using position_of_new[of v domain "[]"] by (simp add: color_def)

lemma color_again:
  "fst (color (encounter (snd (color domain v)) vs) v) = fst (color domain v) \<and>
   snd (color (encounter (snd (color domain v)) vs) v) = encounter (snd (color domain v)) vs"
proof -
  let ?d = "snd (color domain v)"
  have in_d: "v \<in> set ?d"
    by (simp add: snd_color)
  obtain ext where ext: "encounter ?d vs = ?d @ ext"
    using encounter_extends by blast
  with in_d have in_e: "v \<in> set (encounter ?d vs)"
    by simp
  then have "fst (color (encounter ?d vs) v)
      = schemeCategory10 ! (position_of (encounter ?d vs) v mod length schemeCategory10)"
    by (simp add: color_def)
  also have "\<dots> = schemeCategory10 ! (position_of ?d v mod length schemeCategory10)"
    using in_d by (simp add: position_of_encounter)
  also have "\<dots> = fst (color domain v)"
    by (simp add: color_by_position)
  finally show ?thesis
    using in_e by (simp add: color_def)
qed

lemma fill_node_circles:
  "i < length ds \<Longrightarrow>
     fill (node_circles domain ds ! i)
       = schemeCategory10 !
           (position_of (encounter domain (map group ds)) (group (ds ! i))
              mod length schemeCategory10)"
proof (induction ds arbitrary: domain i)
  case Nil
  then show ?case by simp
next
  case (Cons d ds)
  show ?case
  proof (cases i)
    case 0
    have "v \<in> set (snd (color domain v))" for v
      by (simp add: snd_color)
    then have "position_of (encounter (snd (color domain (group d))) (map group ds)) (group d)
        = position_of (snd (color domain (group d))) (group d)"
      by (rule position_of_encounter)
    with 0 show ?thesis
      by (simp add: color_by_position)
  next
    case (Suc n)
    with Cons.prems have "n < length ds"
      by simp
    from Cons.IH[OF this] Suc show ?thesis
      by simp
  qed
qed

lemma length_node_circles [simp]: "length (node_circles domain ds) = length ds"
  by (induction ds arbitrary: domain) simp_all

lemma seeded_groups: "map group (sim_nodes (forceSimulation lib ds)) = map group ds"
proof (rule nth_equalityI)
  show "length (map group (sim_nodes (forceSimulation lib ds))) = length (map group ds)"
    by simp
next
  fix i assume "i < length (map group (sim_nodes (forceSimulation lib ds)))"
  then have i: "i < length ds"
    by simp
  then have "sim_nodes (forceSimulation lib ds) ! i = seed_node lib i (ds ! i)"
    by (simp add: forceSimulation_def nth_enumerate_eq)
  with i show "map group (sim_nodes (forceSimulation lib ds)) ! i = map group ds ! i"
    by (simp add: seed_node_def)
qed

lemma run_effect_new_simulation:
  assumes "run_effect lib c = Returned c'" and "simulations c' = simulations c @ [e]"
  shows "\<exists>rs. forceLink_initialize (sim_nodes (forceSimulation lib (nodes (data c))))
                 (links (data c)) = Inr rs \<and>
              e = register_and_draw (dimensions c) rs (forceSimulation lib (nodes (data c)))"
  using assms by (auto simp: run_effect_def Let_def split: if_splits sum.splits)

lemma fill_new_simulation:
  assumes "run_effect lib c = Returned c'" and "simulations c' = simulations c @ [e]"
    and "i < length (nodes (data c))"
  shows "fill (node_sel e ! i)
           = schemeCategory10 !
               (position_of (encounter [] (map group (nodes (data c)))) (group (nodes (data c) ! i))
                  mod length schemeCategory10)"
proof -
  let ?ns = "sim_nodes (forceSimulation lib (nodes (data c)))"
  from run_effect_new_simulation[OF assms(1,2)]
  have "node_sel e = node_circles [] ?ns"
    by (auto simp: register_and_draw_def)
  moreover have "i < length ?ns"
    using assms(3) by simp
  moreover have "group (?ns ! i) = group (nodes (data c) ! i)"
    using assms(3) nth_map[of i ?ns group] nth_map[of i "nodes (data c)" group]
    by (simp add: seeded_groups)
  ultimately show ?thesis
    by (simp add: fill_node_circles seeded_groups)
qed

text \<open>
  Claim C3. Take two runs of the effect in which the scale encounters the same sequence of
  distinct groups (a re-initialisation on the same snapshot, or on one in which the groups
  first appear in the same order; the two runs may also be the same run). Then a node of the
  one and a node of the other that have the same group are filled with the same colour.
  Within a run, a further call of the scale on a value it has been called on, after any
  other calls, returns the colour of the first call.
\<close>

theorem group_colors_stable:
  assumes "run_effect lib c1 = Returned c1'" and "simulations c1' = simulations c1 @ [e1]"
    and "run_effect lib c2 = Returned c2'" and "simulations c2' = simulations c2 @ [e2]"
    and "encounter [] (map group (nodes (data c1))) = encounter [] (map group (nodes (data c2)))"
    and "i < length (nodes (data c1))" and "j < length (nodes (data c2))"
    and "group (nodes (data c1) ! i) = group (nodes (data c2) ! j)"
  shows "fill (node_sel e1 ! i) = fill (node_sel e2 ! j) \<and>
         fst (color (encounter (snd (color domain v)) vs) v) = fst (color domain v)"
  using fill_new_simulation[OF assms(1,2,6)] fill_new_simulation[OF assms(3,4,7)] assms(5,8)
    color_again[of domain v vs]
  by simp

lemma three_nodes_links_resolved:
  "forceLink_initialize (sim_nodes (forceSimulation lib (nodes three_nodes))) (links three_nodes)
     = Inr [\<lparr>source_node = 0, target_node = 1, link_relationship = ''to'', link_index = 0\<rparr>]"
  by (simp add: forceLink_initialize_def forceSimulation_def three_nodes_def seed_node_def
      Map_new_def find_def Map_get_def)

lemma swapped_links_resolved:
  "forceLink_initialize (sim_nodes (forceSimulation lib (nodes two_nodes_swapped)))
     (links two_nodes_swapped)
     = Inr [\<lparr>source_node = 1, target_node = 0, link_relationship = ''to'', link_index = 0\<rparr>]"
  by (simp add: forceLink_initialize_def forceSimulation_def two_nodes_swapped_def seed_node_def
      Map_new_def find_def Map_get_def)

lemma encounter_two_three:
  "encounter [] (map group (nodes two_nodes)) = [''G1'', ''G2'']"
  "encounter [] (map group (nodes three_nodes)) = [''G1'', ''G2'']"
  "encounter [] (map group (nodes two_nodes_swapped)) = [''G2'', ''G1'']"
  by (simp_all add: two_nodes_def three_nodes_def two_nodes_swapped_def color_def)

subsection \<open>Selections stay joined to the arrays\<close>

lemma joined_register_and_draw:
  assumes "\<forall>l \<in> set rs. source_node l < length (sim_nodes sim) \<and> target_node l < length (sim_nodes sim)"
  shows "joined (register_and_draw dims rs sim)"
  using assms
  by (simp add: joined_def resolved_def register_and_draw_def link_lines_def link_labels_def
      node_labels_def list_all_iff)

lemma ticked_lengths:
  "length (link_sel (ticked e)) = min (length (link_sel e)) (length (sim_links e))"
  "length (linkLabel_sel (ticked e)) = min (length (linkLabel_sel e)) (length (sim_links e))"
  "length (node_sel (ticked e)) = min (length (node_sel e)) (length (sim_nodes e))"
  "length (label_sel (ticked e)) = min (length (label_sel e)) (length (sim_nodes e))"
  by (simp_all add: ticked_def)

lemma ticked_offsets:
  "list_all (\<lambda>p. dx p = 12 \<and> dy p = ''.35em'') (label_sel e) \<Longrightarrow>
   list_all (\<lambda>p. dx p = 12 \<and> dy p = ''.35em'') (label_sel (ticked e))"
  by (auto simp: ticked_def list_all_iff dest: set_zip_leftD)

lemma joined_tick: "joined e \<Longrightarrow> joined (tick lib e)"
  by (simp add: joined_def resolved_def)

lemma joined_ticked: "joined e \<Longrightarrow> joined (ticked e)"
  by (simp add: joined_def resolved_def ticked_lengths ticked_offsets)

lemma joined_running: "joined (e\<lparr>running := b\<rparr>) = joined e"
  by (simp add: joined_def resolved_def)

lemma joined_step: "joined e \<Longrightarrow> joined (step lib e)"
  by (simp add: step_def Let_def joined_running joined_ticked joined_tick)

lemma joined_frame: "joined e \<Longrightarrow> joined (frame lib e)"
  by (simp add: frame_def joined_step)

lemma joined_handle: "joined e \<Longrightarrow> joined (handle lib e ev)"
proof (cases ev)
  case AnimationFrame
  assume "joined e"
  with AnimationFrame show ?thesis by (simp add: joined_frame)
next
  case (DragStart active i)
  assume "joined e"
  with DragStart show ?thesis by (simp add: joined_def resolved_def)
next
  case (DragMove pointer i)
  assume "joined e"
  with DragMove show ?thesis by (simp add: joined_def resolved_def)
next
  case (DragEnd active i)
  assume "joined e"
  with DragEnd show ?thesis by (simp add: joined_def resolved_def)
qed

lemma joined_inputs: "joined e \<Longrightarrow> joined (foldl (handle lib) e inputs)"
  by (induction inputs arbitrary: e) (simp_all add: joined_handle)

lemma rendered_ticked:
  assumes "joined e"
  shows "rendered (ticked e)"
proof -
  from assms have len: "length (link_sel e) = length (sim_links e)"
    "length (linkLabel_sel e) = length (sim_links e)"
    "length (node_sel e) = length (sim_nodes e)"
    "length (label_sel e) = length (sim_nodes e)"
    and res: "\<forall>d \<in> set (sim_links e).
        source_node d < length (sim_nodes e) \<and> target_node d < length (sim_nodes e)"
    and off: "\<forall>p \<in> set (label_sel e). dx p = 12 \<and> dy p = ''.35em''"
    by (simp_all add: joined_def resolved_def list_all_iff)
  have links: "\<forall>i < length (sim_links e).
         source_node (sim_links e ! i) < length (sim_nodes e) \<and>
         target_node (sim_links e ! i) < length (sim_nodes e)"
    using res by simp
  have offs: "\<forall>j < length (sim_nodes e). dx (label_sel e ! j) = 12 \<and> dy (label_sel e ! j) = ''.35em''"
    using off len(4) by simp
  show ?thesis
    unfolding rendered_def
    using len links offs by (simp add: ticked_def)
qed

lemma rendered_running: "rendered (e\<lparr>running := b\<rparr>) = rendered e"
  by (simp add: rendered_def)

lemma rendered_step:
  assumes "joined e"
  shows "rendered (step lib e)"
proof -
  from assms have j: "joined (tick lib e)"
    by (rule joined_tick)
  then have l: "tick_listener (tick lib e)"
    by (simp add: joined_def)
  from j have "rendered (ticked (tick lib e))"
    by (rule rendered_ticked)
  with l show ?thesis
    by (simp add: step_def Let_def rendered_running)
qed

lemma simulation_rendered:
  assumes "run_effect lib c = Returned c'" and "simulations c' = simulations c @ [e]"
  shows "rendered (step lib (foldl (handle lib) e inputs))"
proof -
  from run_effect_new_simulation[OF assms] obtain rs where
    rs: "forceLink_initialize (sim_nodes (forceSimulation lib (nodes (data c)))) (links (data c))
           = Inr rs"
    and e: "e = register_and_draw (dimensions c) rs (forceSimulation lib (nodes (data c)))"
    by blast
  from forceLink_initialize_Inr(3)[OF rs] have "joined e"
    unfolding e by (intro joined_register_and_draw) simp
  then have "joined (foldl (handle lib) e inputs)"
    by (rule joined_inputs)
  then show ?thesis
    by (rule rendered_step)
qed

text \<open>
  Claim C4. In a simulation that an effect run has set up, after any frames and drag events,
  a tick leaves every primitive where the claim says: the lines at the positions of the
  resolved source and target nodes, the link labels at the midpoint, the circles and the
  node labels at the node's position, the labels with their fixed offset.
\<close>

theorem tick_positions_primitives:
  assumes "run_effect lib c = Returned c'" and "simulations c' = simulations c @ [e]"
    and "e' = step lib (foldl (handle lib) e inputs)"
  shows "length (link_sel e') = length (sim_links e') \<and>
         length (linkLabel_sel e') = length (sim_links e') \<and>
         length (node_sel e') = length (sim_nodes e') \<and>
         length (label_sel e') = length (sim_nodes e') \<and>
         (\<forall>i < length (sim_links e').
            source_node (sim_links e' ! i) < length (sim_nodes e') \<and>
            target_node (sim_links e' ! i) < length (sim_nodes e') \<and>
            x1 (link_sel e' ! i) = Some (x (sim_nodes e' ! source_node (sim_links e' ! i))) \<and>
            y1 (link_sel e' ! i) = Some (y (sim_nodes e' ! source_node (sim_links e' ! i))) \<and>
            x2 (link_sel e' ! i) = Some (x (sim_nodes e' ! target_node (sim_links e' ! i))) \<and>
            y2 (link_sel e' ! i) = Some (y (sim_nodes e' ! target_node (sim_links e' ! i))) \<and>
            linkLabel_x (linkLabel_sel e' ! i)
              = Some ((x (sim_nodes e' ! source_node (sim_links e' ! i))
                       + x (sim_nodes e' ! target_node (sim_links e' ! i))) / 2) \<and>
            linkLabel_y (linkLabel_sel e' ! i)
              = Some ((y (sim_nodes e' ! source_node (sim_links e' ! i))
                       + y (sim_nodes e' ! target_node (sim_links e' ! i))) / 2)) \<and>
         (\<forall>j < length (sim_nodes e').
            cx (node_sel e' ! j) = Some (x (sim_nodes e' ! j)) \<and>
            cy (node_sel e' ! j) = Some (y (sim_nodes e' ! j)) \<and>
            label_x (label_sel e' ! j) = Some (x (sim_nodes e' ! j)) \<and>
            label_y (label_sel e' ! j) = Some (y (sim_nodes e' ! j)) \<and>
            dx (label_sel e' ! j) = 12 \<and> dy (label_sel e' ! j) = ''.35em'')"
  using simulation_rendered[OF assms(1,2), of inputs] unfolding assms(3) rendered_def
  by blast

subsection \<open>Concrete runs\<close>

lemma Mount_two_nodes_run:
  "run_effect d3_unforced (first_render two_nodes) = Returned mounted"
  "simulations mounted = simulations (first_render two_nodes) @ [first_simulation]"
  by (simp_all add: mounted_def first_simulation_def Mount_def first_render_def state_of_def
      run_effect_def Let_def two_nodes_links_resolved two_nodes_nonempty)

lemma three_nodes_nonempty: "nodes three_nodes \<noteq> []" "nodes two_nodes_swapped \<noteq> []"
  by (simp_all add: three_nodes_def two_nodes_swapped_def)

lemma Replace_three_nodes:
  "run_effect d3_unforced (run_cleanup (mounted\<lparr>data := three_nodes\<rparr>)) = Returned grown"
  "simulations grown = simulations (run_cleanup (mounted\<lparr>data := three_nodes\<rparr>))
      @ [simulations grown ! 1]"
  by (simp_all add: grown_def Replace_def state_of_def run_effect_def Let_def
      three_nodes_links_resolved three_nodes_nonempty mounted_active nth_append)

lemma Replace_swapped:
  "run_effect d3_unforced (run_cleanup (mounted\<lparr>data := two_nodes_swapped\<rparr>)) = Returned reordered"
  "simulations reordered = simulations (run_cleanup (mounted\<lparr>data := two_nodes_swapped\<rparr>))
      @ [simulations reordered ! 1]"
  by (simp_all add: reordered_def Replace_def state_of_def run_effect_def Let_def
      swapped_links_resolved three_nodes_nonempty mounted_active nth_append)

lemma first_simulation_fill: "fill (node_sel first_simulation ! 0) = ''#1f77b4''"
  using fill_new_simulation[OF Mount_two_nodes_run, of 0]
  by (simp add: first_render_def encounter_two_three) (simp add: two_nodes_def schemeCategory10_def)

lemma reordered_fill: "fill (node_sel (simulations reordered ! 1) ! 1) = ''#ff7f0e''"
  using fill_new_simulation[OF Replace_swapped, of 1]
  by (simp add: encounter_two_three) (simp add: two_nodes_swapped_def schemeCategory10_def)

text \<open>
  The scale is created anew in every run, so the hypothesis on the order of first
  appearance is needed: with the two nodes of \<open>two_nodes\<close> in the other order, the node of
  group \<open>G1\<close> gets the second colour of the palette.
\<close>

lemma colors_follow_node_order:
  "group (nodes two_nodes ! 0) = group (nodes two_nodes_swapped ! 1) \<and>
   fill (node_sel first_simulation ! 0) \<noteq> fill (node_sel (simulations reordered ! 1) ! 1)"
  using first_simulation_fill reordered_fill by (simp add: two_nodes_def two_nodes_swapped_def)

theorem group_colors_stable_witness:
  "run_effect d3_unforced (first_render two_nodes) = Returned mounted \<and>
   simulations mounted = simulations (first_render two_nodes) @ [first_simulation] \<and>
   run_effect d3_unforced (run_cleanup (mounted\<lparr>data := three_nodes\<rparr>)) = Returned grown \<and>
   simulations grown = simulations (run_cleanup (mounted\<lparr>data := three_nodes\<rparr>))
      @ [simulations grown ! 1] \<and>
   encounter [] (map group (nodes two_nodes)) = encounter [] (map group (nodes three_nodes)) \<and>
   0 < length (nodes two_nodes) \<and> 2 < length (nodes three_nodes) \<and>
   group (nodes two_nodes ! 0) = group (nodes three_nodes ! 2) \<and>
   fill (node_sel first_simulation ! 0) = fill (node_sel (simulations grown ! 1) ! 2)"
proof -
  have g: "group (nodes two_nodes ! 0) = group (nodes three_nodes ! 2)"
    by (simp add: two_nodes_def three_nodes_def)
  have enc: "encounter [] (map group (nodes (data (first_render two_nodes))))
      = encounter [] (map group (nodes (data (run_cleanup (mounted\<lparr>data := three_nodes\<rparr>)))))"
    by (simp add: first_render_def encounter_two_three)
  have "fill (node_sel first_simulation ! 0) = fill (node_sel (simulations grown ! 1) ! 2)"
    using group_colors_stable [OF Mount_two_nodes_run Replace_three_nodes enc, of 0 2] g
    by (simp add: first_render_def two_nodes_def three_nodes_def)
  moreover have "0 < length (nodes two_nodes) \<and> 2 < length (nodes three_nodes)"
    by (simp add: two_nodes_def three_nodes_def)
  ultimately show ?thesis
    using g Mount_two_nodes_run Replace_three_nodes encounter_two_three by simp
qed

lemma after_drag_arrays:
  "sim_links after_drag
     = [\<lparr>source_node = 0, target_node = 1, link_relationship = ''to'', link_index = 0\<rparr>]"
  "length (sim_nodes after_drag) = 2"
  by (simp_all add: after_drag_def first_simulation_eq sim_nodes_two)

lemma after_drag_pinned:
  "x (sim_nodes after_drag ! 0) = 50 \<and> y (sim_nodes after_drag ! 0) = 60"
proof -
  let ?e1 = "dragstarted 0 0 (frame d3_unforced first_simulation)"
  let ?e2 = "dragged (50, 60) 0 ?e1"
  let ?e3 = "frame d3_unforced ?e2"
  have len: "0 < length (sim_nodes ?e1)" "0 < length (sim_nodes ?e2)" "0 < length (sim_nodes ?e3)"
    by (simp_all add: first_simulation_length)
  have "fx (sim_nodes ?e2 ! 0) = Some 50 \<and> fy (sim_nodes ?e2 ! 0) = Some 60"
    using dragged_pin[OF len(1), of "(50, 60)"] by simp
  then have "fx (sim_nodes ?e3 ! 0) = Some 50 \<and> fy (sim_nodes ?e3 ! 0) = Some 60"
    using frame_pin[OF len(2), of d3_unforced] by simp
  then have "x (sim_nodes (step d3_unforced ?e3) ! 0) = 50 \<and>
             y (sim_nodes (step d3_unforced ?e3) ! 0) = 60"
    using tick_pinned(1)[OF len(3)] tick_pinned(2)[OF len(3)] by simp
  then show ?thesis
    by (simp add: after_drag_def)
qed

theorem tick_positions_primitives_witness:
  "run_effect d3_unforced (first_render two_nodes) = Returned mounted \<and>
   simulations mounted = simulations (first_render two_nodes) @ [first_simulation] \<and>
   0 < length (sim_links after_drag) \<and> 0 < length (sim_nodes after_drag) \<and>
   source_node (sim_links after_drag ! 0) = 0 \<and>
   target_node (sim_links after_drag ! 0) = 1 \<and>
   x1 (link_sel after_drag ! 0) = Some 50 \<and>
   y1 (link_sel after_drag ! 0) = Some 60 \<and>
   x2 (link_sel after_drag ! 0) = Some (x (sim_nodes after_drag ! 1)) \<and>
   linkLabel_x (linkLabel_sel after_drag ! 0) = Some ((50 + x (sim_nodes after_drag ! 1)) / 2) \<and>
   cx (node_sel after_drag ! 0) = Some 50 \<and>
   cy (node_sel after_drag ! 0) = Some 60 \<and>
   label_x (label_sel after_drag ! 0) = Some 50 \<and>
   dx (label_sel after_drag ! 0) = 12"
  using tick_positions_primitives [OF Mount_two_nodes_run after_drag_def]
    Mount_two_nodes_run after_drag_arrays after_drag_pinned
  by simp

subsection \<open>What the guard leaves on the screen\<close>

text \<open>
  The guard returns before \<^verbatim>\<open>svg.selectAll("*").remove()\<close>. After a replacement by an
  empty snapshot the circles of the previous run are therefore still in the \<^verbatim>\<open>svg\<close>, with
  their drag handlers; pointer-down on one of them restarts the simulation that the cleanup
  has stopped.
\<close>

lemma stale_circles_restart:
  "svg (state_of (Replace d3_unforced no_nodes mounted)) = Some 0 \<and>
   \<not> running (simulations (state_of (Replace d3_unforced no_nodes mounted)) ! 0) \<and>
   running (simulations
     (deliver d3_unforced (DragStart 0 0) (state_of (Replace d3_unforced no_nodes mounted))) ! 0)"
proof -
  have r: "state_of (Replace d3_unforced no_nodes mounted)
             = run_cleanup (mounted\<lparr>data := no_nodes\<rparr>)"
    by (simp add: Replace_def run_effect_def state_of_def no_nodes_def)
  have s: "simulations (run_cleanup (mounted\<lparr>data := no_nodes\<rparr>)) ! 0 = stop first_simulation"
    using run_cleanup_nth[of "mounted\<lparr>data := no_nodes\<rparr>" 0]
    by (simp add: mounted_active first_simulation_def)
  have "simulations (deliver d3_unforced (DragStart 0 0) (run_cleanup (mounted\<lparr>data := no_nodes\<rparr>))) ! 0
          = dragstarted 0 0 (stop first_simulation)"
    using deliver_nth[of "run_cleanup (mounted\<lparr>data := no_nodes\<rparr>)" 0 d3_unforced "DragStart 0 0"] s
    by (simp add: mounted_active)
  with r s show ?thesis
    by (simp add: mounted_active dragstarted_reheat)
qed

lemma first_simulation_drawn:
  "length (node_sel first_simulation) = 2" "length (label_sel first_simulation) = 2"
  "length (link_sel first_simulation) = 1" "length (linkLabel_sel first_simulation) = 1"
  by (simp_all add: first_simulation_eq register_and_draw_def sim_nodes_two node_labels_def
      link_lines_def link_labels_def)

text \<open>
  Claim C6, at the component mounted on \<open>two_nodes\<close> and then given a snapshot of zero
  nodes. The effect returns at its guard, which stands before
  \<^verbatim>\<open>svg.selectAll("*").remove(); // Clear previous\<close>: the \<^verbatim>\<open>svg\<close> still holds what the previous
  run drew, two circles, two labels, a line and a link label, bound to the simulation the
  cleanup has stopped, and a pointer-down on one of the circles restarts that simulation.
  The view is not in a render-nothing state.
\<close>

theorem empty_replacement_keeps_drawing:
  "nodes no_nodes = [] \<and>
   svg (state_of (Replace d3_unforced no_nodes mounted)) = Some 0 \<and>
   length (node_sel (simulations (state_of (Replace d3_unforced no_nodes mounted)) ! 0)) = 2 \<and>
   length (label_sel (simulations (state_of (Replace d3_unforced no_nodes mounted)) ! 0)) = 2 \<and>
   length (link_sel (simulations (state_of (Replace d3_unforced no_nodes mounted)) ! 0)) = 1 \<and>
   length (linkLabel_sel (simulations (state_of (Replace d3_unforced no_nodes mounted)) ! 0)) = 1 \<and>
   \<not> running (simulations (state_of (Replace d3_unforced no_nodes mounted)) ! 0) \<and>
   running (simulations
     (deliver d3_unforced (DragStart 0 0) (state_of (Replace d3_unforced no_nodes mounted))) ! 0)"
proof -
  have r: "state_of (Replace d3_unforced no_nodes mounted)
             = run_cleanup (mounted\<lparr>data := no_nodes\<rparr>)"
    by (simp add: Replace_def run_effect_def state_of_def no_nodes_def)
  have s: "simulations (run_cleanup (mounted\<lparr>data := no_nodes\<rparr>)) ! 0 = stop first_simulation"
    using run_cleanup_nth[of "mounted\<lparr>data := no_nodes\<rparr>" 0]
    by (simp add: mounted_active first_simulation_def)
  have "nodes no_nodes = []"
    by (simp add: no_nodes_def)
  with r s first_simulation_drawn stale_circles_restart show ?thesis
    by (simp add: stop_def)
qed

section \<open>Properties of the store\<close>

subsection \<open>Writes to owned objects\<close>

lemma length_set_prop [simp]: "length (set_prop h a p v) = length h"
  by (simp add: set_prop_def)

lemma take_set_prop: "n \<le> a \<Longrightarrow> take n (set_prop h a p v) = take n h"
  by (simp add: set_prop_def)

lemma spread_all_fresh:
  "spread_all h as = (h', bs) \<Longrightarrow>
     length h \<le> length h' \<and> take (length h) h' = h \<and> length bs = length as \<and>
     list_all (\<lambda>b. length h \<le> b \<and> b < length h') bs"
proof (induction as arbitrary: h h' bs)
  case Nil
  then show ?case by simp
next
  case (Cons a as)
  let ?h1 = "h @ [h ! a]"
  from Cons.prems obtain bs' where
    rest: "spread_all ?h1 as = (h', bs')" and bs: "bs = length h # bs'"
    by (auto simp: spread_def split: prod.splits)
  from Cons.IH[OF rest] have
    len: "length ?h1 \<le> length h'" and tk: "take (length ?h1) h' = ?h1"
    and n: "length bs' = length as"
    and fresh: "list_all (\<lambda>b. length ?h1 \<le> b \<and> b < length h') bs'"
    by simp_all
  have "take (length h) h' = take (length h) (take (length ?h1) h')"
    by (simp add: min_def)
  also have "\<dots> = h"
    by (simp only: tk) simp
  finally have 1: "take (length h) h' = h" .
  from fresh have 2: "list_all (\<lambda>b. length h \<le> b \<and> b < length h') bs'"
    by (auto simp: list_all_iff)
  from len 1 2 n bs show ?case
    by simp
qed

lemma snd_enumerate_mem: "v \<in> set (enumerate n vs) \<Longrightarrow> snd v \<in> set vs"
  unfolding enumerate_eq_zip by (cases v) (auto dest: set_zip_rightD)

lemma foldl_writes:
  assumes "\<And>g v. v \<in> set vs \<Longrightarrow> length (f g v) = length g \<and> take n (f g v) = take n g"
  shows "length (foldl f h vs) = length h \<and> take n (foldl f h vs) = take n h"
  using assms by (induction vs arbitrary: h) simp_all

lemma seed_object_writes:
  "n \<le> snd ia \<Longrightarrow>
     length (seed_object lib h ia) = length h \<and> take n (seed_object lib h ia) = take n h"
  by (cases ia) (simp add: seed_object_def take_set_prop)

lemma heap_forceSimulation_writes:
  assumes "list_all (\<lambda>a. n \<le> a) ns"
  shows "length (heap_forceSimulation lib h ns) = length h \<and>
         take n (heap_forceSimulation lib h ns) = take n h"
  unfolding heap_forceSimulation_def
proof (rule foldl_writes)
  fix g v assume "v \<in> set (enumerate 0 ns)"
  then have "snd v \<in> set ns"
    by (rule snd_enumerate_mem)
  with assms have "n \<le> snd v"
    by (simp add: list_all_iff)
  then show "length (seed_object lib g v) = length g \<and> take n (seed_object lib g v) = take n g"
    by (rule seed_object_writes)
qed

lemma heap_resolve_writes:
  "list_all (\<lambda>il. n \<le> snd il) ls \<Longrightarrow>
     length (snd (heap_resolve m h ls)) = length h \<and>
     take n (snd (heap_resolve m h ls)) = take n h"
proof (induction m h ls rule: heap_resolve.induct)
  case (1 nodeById h)
  then show ?case by simp
next
  case (2 nodeById h i l ls)
  let ?h1 = "set_prop h l ''index'' (Num (real i))"
  from "2.prems" have l: "n \<le> l" and ls: "list_all (\<lambda>il. n \<le> snd il) ls"
    by simp_all
  show ?case
  proof (cases "heap_find nodeById (get_prop ?h1 l ''source'')")
    case None
    with l show ?thesis
      by (simp add: take_set_prop)
  next
    case (Some s)
    let ?h2 = "set_prop ?h1 l ''source'' (Ref s)"
    show ?thesis
    proof (cases "heap_find nodeById (get_prop ?h2 l ''target'')")
      case None
      with Some l show ?thesis
        by (simp add: take_set_prop)
    next
      case (Some t)
      from "2.IH"[OF refl \<open>heap_find nodeById (get_prop ?h1 l ''source'') = Some s\<close> refl Some ls]
      have "length (snd (heap_resolve nodeById (set_prop ?h2 l ''target'' (Ref t)) ls)) = length h \<and>
            take n (snd (heap_resolve nodeById (set_prop ?h2 l ''target'' (Ref t)) ls)) = take n h"
        using l by (simp add: take_set_prop)
      with Some \<open>heap_find nodeById (get_prop ?h1 l ''source'') = Some s\<close> show ?thesis
        by simp
    qed
  qed
qed

lemma heap_forceLink_writes:
  assumes "list_all (\<lambda>a. n \<le> a) ls"
  shows "length (snd (heap_forceLink h ns ls)) = length h \<and>
         take n (snd (heap_forceLink h ns ls)) = take n h"
proof -
  have "snd il \<in> set ls" if "il \<in> set (enumerate 0 ls)" for il
    using that by (rule snd_enumerate_mem)
  with assms have "list_all (\<lambda>il. n \<le> snd il) (enumerate 0 ls)"
    by (simp add: list_all_iff)
  then show ?thesis
    unfolding heap_forceLink_def by (rule heap_resolve_writes)
qed

lemma owned_heap_effect: "owned h (snd (heap_effect lib svgRef_current h data_nodes data_links))"
proof (cases "data_nodes = [] \<or> \<not> svgRef_current")
  case True
  then show ?thesis
    by (simp add: heap_effect_def owned_def)
next
  case False
  obtain h1 ns where 1: "spread_all h data_nodes = (h1, ns)"
    by (cases "spread_all h data_nodes")
  obtain h2 ls where 2: "spread_all h1 data_links = (h2, ls)"
    by (cases "spread_all h1 data_links")
  let ?h3 = "heap_forceSimulation lib h2 ns"
  obtain threw h4 where 3: "heap_forceLink ?h3 ns ls = (threw, h4)"
    by (cases "heap_forceLink ?h3 ns ls")
  note f1 = spread_all_fresh[OF 1] and f2 = spread_all_fresh[OF 2]
  from f1 f2 have ns: "list_all (\<lambda>a. length h \<le> a \<and> a < length h2) ns"
    and ls: "list_all (\<lambda>a. length h \<le> a \<and> a < length h2) ls"
    by (auto simp: list_all_iff)
  have "take (length h) h2 = take (length h) (take (length h1) h2)"
    using f1 by (simp add: min_def)
  with f1 f2 have t2: "take (length h) h2 = h"
    by simp
  from ns have "list_all (\<lambda>a. length h \<le> a) ns"
    by (auto simp: list_all_iff)
  from heap_forceSimulation_writes[OF this, of lib h2]
  have w3: "length ?h3 = length h2" "take (length h) ?h3 = take (length h) h2"
    by simp_all
  from ls have "list_all (\<lambda>a. length h \<le> a) ls"
    by (auto simp: list_all_iff)
  from heap_forceLink_writes[OF this, of ?h3 ns] 3
  have w4: "length h4 = length ?h3" "take (length h) h4 = take (length h) ?h3"
    by simp_all
  from w3 w4 t2 ns ls have "owned h \<lparr>heap = h4, node_refs = ns, link_refs = ls\<rparr>"
    by (simp add: owned_def)
  with False 1 2 3 show ?thesis
    by (simp add: heap_effect_def)
qed

lemma copies_heap_effect:
  "data_nodes \<noteq> [] \<and> svgRef_current \<Longrightarrow>
     length (node_refs (snd (heap_effect lib svgRef_current h data_nodes data_links))) = length data_nodes \<and>
     length (link_refs (snd (heap_effect lib svgRef_current h data_nodes data_links))) = length data_links"
  by (auto simp: heap_effect_def split: prod.splits dest: spread_all_fresh)

lemma move_object_writes:
  "n \<le> a \<Longrightarrow>
     length (move_object motion h a) = length h \<and>
     take n (move_object motion h a) = take n h"
  by (simp add: move_object_def take_set_prop split: prod.split)

lemma owned_heap_tick:
  assumes "owned h r"
  shows "owned h (heap_tick motion r)"
proof -
  have "length (foldl (move_object motion) (heap r) (node_refs r)) = length (heap r) \<and>
        take (length h) (foldl (move_object motion) (heap r) (node_refs r))
          = take (length h) (heap r)"
  proof (rule foldl_writes)
    fix g v assume "v \<in> set (node_refs r)"
    with assms have "length h \<le> v"
      by (simp add: owned_def list_all_iff)
    then show "length (move_object motion g v) = length g \<and>
        take (length h) (move_object motion g v) = take (length h) g"
      by (rule move_object_writes)
  qed
  with assms show ?thesis
    by (simp add: owned_def heap_tick_def)
qed

lemma owned_on_datum:
  assumes "owned h r"
    and "\<And>d. length h \<le> d \<Longrightarrow> length (f d) = length (heap r) \<and> take (length h) (f d) = take (length h) (heap r)"
  shows "owned h (on_datum r i f)"
proof (cases "i < length (node_refs r)")
  case True
  then have "node_refs r ! i \<in> set (node_refs r)"
    by simp
  with assms(1) have "length h \<le> node_refs r ! i"
    by (simp add: owned_def list_all_iff)
  from assms(2)[OF this] assms(1) True show ?thesis
    by (simp add: owned_def on_datum_def)
next
  case False
  with assms(1) show ?thesis
    by (simp add: on_datum_def)
qed

lemma owned_heap_handle: "owned h r \<Longrightarrow> owned h (heap_handle r ev)"
proof (cases ev)
  case (HeapTick motion)
  assume "owned h r"
  with HeapTick show ?thesis
    by (simp add: owned_heap_tick)
next
  case (HeapDragStart i)
  assume "owned h r"
  then have "owned h (heap_dragstarted i r)"
    unfolding heap_dragstarted_def by (rule owned_on_datum) (simp add: take_set_prop)
  with HeapDragStart show ?thesis by simp
next
  case (HeapDragMove pointer i)
  assume "owned h r"
  then have "owned h (heap_dragged pointer i r)"
    unfolding heap_dragged_def by (rule owned_on_datum) (simp add: take_set_prop)
  with HeapDragMove show ?thesis by simp
next
  case (HeapDragEnd i)
  assume "owned h r"
  then have "owned h (heap_dragended i r)"
    unfolding heap_dragended_def by (rule owned_on_datum) (simp add: take_set_prop)
  with HeapDragEnd show ?thesis by simp
qed

lemma owned_inputs: "owned h r \<Longrightarrow> owned h (foldl heap_handle r inputs)"
  by (induction inputs arbitrary: r) (simp_all add: owned_heap_handle)

subsection \<open>The writes reach the copies\<close>

lemma Map_get_set: "Map_get (Map_set m p v) q = (if q = p then Some v else Map_get m q)"
  by (simp add: Map_get_def map_of_Map_set)

lemma get_set_prop:
  "a < length h \<Longrightarrow>
     get_prop (set_prop h a p v) b q = (if b = a \<and> q = p then v else get_prop h b q)"
  by (simp add: get_prop_def set_prop_def Map_get_set nth_list_update)

lemma length_move_object [simp]: "length (move_object motion h a) = length h"
  by (simp add: move_object_def split: prod.split)

lemma length_moved [simp]: "length (foldl (move_object motion) h refs) = length h"
  by (induction refs arbitrary: h) simp_all

lemma move_object_x:
  "a < length h \<Longrightarrow>
     get_prop (move_object motion h a) b ''x''
       = (if b = a then Num (fst (motion a)) else get_prop h b ''x'')"
  by (cases "motion a") (simp add: move_object_def get_set_prop)

lemma moved_x:
  "list_all (\<lambda>b. b < length h) refs \<Longrightarrow> a \<in> set refs \<Longrightarrow>
     get_prop (foldl (move_object motion) h refs) a ''x'' = Num (fst (motion a))"
proof (induction refs rule: rev_induct)
  case Nil
  then show ?case by simp
next
  case (snoc b refs)
  then have b: "b < length (foldl (move_object motion) h refs)"
    by simp
  show ?case
  proof (cases "a = b")
    case True
    with b show ?thesis
      by (simp add: move_object_x)
  next
    case False
    with snoc.prems have "a \<in> set refs" "list_all (\<lambda>b. b < length h) refs"
      by simp_all
    with snoc.IH have "get_prop (foldl (move_object motion) h refs) a ''x'' = Num (fst (motion a))"
      by simp
    with False b show ?thesis
      by (simp add: move_object_x)
  qed
qed

lemma heap_handle_refs [simp]:
  "node_refs (heap_handle r ev) = node_refs r" "link_refs (heap_handle r ev) = link_refs r"
  by (cases ev; simp add: heap_tick_def heap_dragstarted_def heap_dragged_def heap_dragended_def
      on_datum_def)+

lemma heap_inputs_refs [simp]:
  "node_refs (foldl heap_handle r inputs) = node_refs r"
  "link_refs (foldl heap_handle r inputs) = link_refs r"
  by (induction inputs arbitrary: r) simp_all

lemma owned_refs_in_store:
  "owned h r \<Longrightarrow> list_all (\<lambda>b. b < length (heap r)) (node_refs r)"
  by (simp add: owned_def list_all_iff)

lemma tick_then_release_x:
  assumes "owned h r" and "0 < length (node_refs r)"
  shows "get_prop (heap (heap_handle (heap_handle r (HeapTick motion)) (HeapDragEnd 0)))
           (node_refs r ! 0) ''x'' = Num (fst (motion (node_refs r ! 0)))"
proof -
  let ?a = "node_refs r ! 0"
  let ?h1 = "foldl (move_object motion) (heap r) (node_refs r)"
  have a: "?a \<in> set (node_refs r)"
    using assms(2) by simp
  have x: "get_prop ?h1 ?a ''x'' = Num (fst (motion ?a))"
    using owned_refs_in_store[OF assms(1)] a by (rule moved_x)
  have "?a < length (heap r)"
    using owned_refs_in_store[OF assms(1)] a by (simp add: list_all_iff)
  then have "?a < length ?h1"
    by simp
  then have "get_prop (set_prop (set_prop ?h1 ?a ''fx'' Null) ?a ''fy'' Null) ?a ''x''
               = get_prop ?h1 ?a ''x''"
    by (simp add: get_set_prop)
  with x assms(2) show ?thesis
    by (simp add: heap_tick_def heap_dragended_def on_datum_def)
qed

lemma spread_caller_nodes:
  "spread_all caller_heap [0, 1] = (caller_heap @ [caller_heap ! 0, caller_heap ! 1], [3, 4])"
  by (simp add: spread_def caller_heap_def)

lemma spread_caller_links:
  "spread_all (caller_heap @ [caller_heap ! 0, caller_heap ! 1]) [2]
     = (caller_heap @ [caller_heap ! 0, caller_heap ! 1, caller_heap ! 2], [5])"
  by (simp add: spread_def caller_heap_def)

lemma caller_run_refs: "node_refs caller_run = [3, 4] \<and> link_refs caller_run = [5]"
  unfolding caller_run_def
  using spread_caller_nodes spread_caller_links
  by (simp add: heap_effect_def del: spread_all.simps split: prod.split)

lemma caller_run_dragged_x: "get_prop (heap caller_run_dragged) 3 ''x'' = Num 50"
proof -
  let ?r = "foldl heap_handle caller_run
              [HeapTick (\<lambda>a. (1, 2, 0, 0)), HeapDragStart 0, HeapDragMove (50, 60) 0]"
  have "owned caller_heap ?r"
    unfolding caller_run_def by (intro owned_inputs owned_heap_effect)
  moreover have "node_refs ?r = [3, 4]"
    using caller_run_refs by (simp del: foldl.simps)
  ultimately have "get_prop (heap (heap_handle (heap_handle ?r (HeapTick (\<lambda>a. (50, 60, 0, 0))))
      (HeapDragEnd 0))) 3 ''x'' = Num 50"
    using tick_then_release_x[of caller_heap ?r "\<lambda>a. (50, 60, 0, 0)"] by simp
  then show ?thesis
    by (simp add: caller_run_dragged_def)
qed

subsection \<open>What the copies hold\<close>

text \<open>
  The simulation and the drag handlers write \<open>index\<close>, \<open>x\<close>, \<open>y\<close>, \<open>vx\<close>, \<open>vy\<close>, \<open>fx\<close>,
  \<open>fy\<close> of the elements of \<open>nodes\<close>; the link force writes \<open>index\<close>, \<open>source\<close>, \<open>target\<close> of the
  elements of \<open>links\<close>. Every other property of a copy is read as \<^verbatim>\<open>({ ...d })\<close> left it.
\<close>

lemma writes_onlyI:
  "(\<And>a p. a \<notin> A \<or> p \<notin> W \<Longrightarrow> get_prop h' a p = get_prop h a p) \<Longrightarrow> writes_only A W h h'"
  unfolding writes_only_def by blast

lemma writes_onlyD:
  "writes_only A W h h' \<Longrightarrow> a \<notin> A \<or> p \<notin> W \<Longrightarrow> get_prop h' a p = get_prop h a p"
  unfolding writes_only_def by blast

lemma writes_only_refl: "writes_only A W h h"
  by (simp add: writes_only_def)

lemma writes_only_trans:
  assumes "writes_only A W h h1" and "writes_only A W h1 h2"
  shows "writes_only A W h h2"
proof (rule writes_onlyI)
  fix a p assume n: "a \<notin> A \<or> p \<notin> W"
  show "get_prop h2 a p = get_prop h a p"
    using writes_onlyD[OF assms(1) n] writes_onlyD[OF assms(2) n] by simp
qed

lemma get_prop_other:
  "b \<noteq> a \<or> q \<noteq> p \<Longrightarrow> get_prop (set_prop h a p v) b q = get_prop h b q"
proof (cases "a < length h")
  case True
  assume "b \<noteq> a \<or> q \<noteq> p"
  with True show ?thesis
    by (auto simp: get_set_prop)
next
  case False
  then show ?thesis
    by (simp add: set_prop_def list_update_beyond)
qed

lemma writes_only_set_prop:
  assumes "a \<in> A" and "p \<in> W"
  shows "writes_only A W h (set_prop h a p v)"
proof (rule writes_onlyI)
  fix b q assume "b \<notin> A \<or> q \<notin> W"
  with assms have "b \<noteq> a \<or> q \<noteq> p"
    by blast
  then show "get_prop (set_prop h a p v) b q = get_prop h b q"
    by (rule get_prop_other)
qed

lemma writes_only_foldl:
  assumes "\<And>g v. v \<in> set vs \<Longrightarrow> writes_only A W g (f g v)"
  shows "writes_only A W h (foldl f h vs)"
  using assms
proof (induction vs arbitrary: h)
  case Nil
  show ?case by (simp add: writes_only_refl)
next
  case (Cons v vs)
  have "writes_only A W h (f h v)"
    by (rule Cons.prems) simp
  moreover have "writes_only A W (f h v) (foldl f (f h v) vs)"
    by (rule Cons.IH) (simp add: Cons.prems)
  ultimately show ?case
    by (simp add: writes_only_trans)
qed

lemma writes_only_seed_object:
  assumes a: "snd ia \<in> A"
    and W: "''index'' \<in> W" "''x'' \<in> W" "''y'' \<in> W" "''vx'' \<in> W" "''vy'' \<in> W"
  shows "writes_only A W h (seed_object lib h ia)"
proof -
  obtain i b where ia: "ia = (i, b)" by (cases ia)
  with a have b: "b \<in> A" by simp
  let ?h1 = "set_prop h b ''index'' (Num (real i))"
  let ?h2 = "set_prop ?h1 b ''x'' (Num (fst (initial_position lib i)))"
  let ?h3 = "set_prop ?h2 b ''y'' (Num (snd (initial_position lib i)))"
  let ?h4 = "set_prop ?h3 b ''vx'' (Num 0)"
  let ?h5 = "set_prop ?h4 b ''vy'' (Num 0)"
  have "writes_only A W h ?h1"
    using b W(1) by (rule writes_only_set_prop)
  moreover have "writes_only A W ?h1 ?h2"
    using b W(2) by (rule writes_only_set_prop)
  ultimately have "writes_only A W h ?h2"
    by (rule writes_only_trans)
  moreover have "writes_only A W ?h2 ?h3"
    using b W(3) by (rule writes_only_set_prop)
  ultimately have "writes_only A W h ?h3"
    by (rule writes_only_trans)
  moreover have "writes_only A W ?h3 ?h4"
    using b W(4) by (rule writes_only_set_prop)
  ultimately have "writes_only A W h ?h4"
    by (rule writes_only_trans)
  moreover have "writes_only A W ?h4 ?h5"
    using b W(5) by (rule writes_only_set_prop)
  ultimately have "writes_only A W h ?h5"
    by (rule writes_only_trans)
  then show ?thesis
    by (simp add: ia seed_object_def)
qed

lemma writes_only_forceSimulation:
  assumes "set ns \<subseteq> A"
    and W: "''index'' \<in> W" "''x'' \<in> W" "''y'' \<in> W" "''vx'' \<in> W" "''vy'' \<in> W"
  shows "writes_only A W h (heap_forceSimulation lib h ns)"
  unfolding heap_forceSimulation_def
proof (rule writes_only_foldl)
  fix g v assume "v \<in> set (enumerate 0 ns)"
  then have "snd v \<in> set ns"
    by (rule snd_enumerate_mem)
  with assms(1) have "snd v \<in> A" by blast
  then show "writes_only A W g (seed_object lib g v)"
    using W by (rule writes_only_seed_object)
qed

lemma writes_only_resolve:
  assumes W: "''index'' \<in> W" "''source'' \<in> W" "''target'' \<in> W"
  shows "snd ` set ls \<subseteq> A \<Longrightarrow> writes_only A W h (snd (heap_resolve m h ls))"
proof (induction m h ls rule: heap_resolve.induct)
  case (1 nodeById h)
  show ?case by (simp add: writes_only_refl)
next
  case (2 nodeById h i l ls)
  let ?h1 = "set_prop h l ''index'' (Num (real i))"
  from "2.prems" have l: "l \<in> A" and ls: "snd ` set ls \<subseteq> A"
    by simp_all
  have w1: "writes_only A W h ?h1"
    using l W(1) by (rule writes_only_set_prop)
  show ?case
  proof (cases "heap_find nodeById (get_prop ?h1 l ''source'')")
    case None
    with w1 show ?thesis by simp
  next
    case (Some s)
    let ?h2 = "set_prop ?h1 l ''source'' (Ref s)"
    have "writes_only A W ?h1 ?h2"
      using l W(2) by (rule writes_only_set_prop)
    with w1 have w2: "writes_only A W h ?h2"
      by (rule writes_only_trans)
    show ?thesis
    proof (cases "heap_find nodeById (get_prop ?h2 l ''target'')")
      case None
      with Some w2 show ?thesis by simp
    next
      case (Some t)
      let ?h3 = "set_prop ?h2 l ''target'' (Ref t)"
      have "writes_only A W ?h2 ?h3"
        using l W(3) by (rule writes_only_set_prop)
      with w2 have w3: "writes_only A W h ?h3"
        by (rule writes_only_trans)
      from "2.IH"[OF refl \<open>heap_find nodeById (get_prop ?h1 l ''source'') = Some s\<close> refl Some ls]
      have "writes_only A W ?h3 (snd (heap_resolve nodeById ?h3 ls))" .
      with w3 have "writes_only A W h (snd (heap_resolve nodeById ?h3 ls))"
        by (rule writes_only_trans)
      with Some \<open>heap_find nodeById (get_prop ?h1 l ''source'') = Some s\<close> show ?thesis
        by simp
    qed
  qed
qed

lemma writes_only_forceLink:
  assumes "set ls \<subseteq> A"
    and W: "''index'' \<in> W" "''source'' \<in> W" "''target'' \<in> W"
  shows "writes_only A W h (snd (heap_forceLink h ns ls))"
proof -
  have "snd il \<in> set ls" if "il \<in> set (enumerate 0 ls)" for il
    using that by (rule snd_enumerate_mem)
  with assms(1) have "snd ` set (enumerate 0 ls) \<subseteq> A"
    by blast
  with W show ?thesis
    unfolding heap_forceLink_def by (rule writes_only_resolve)
qed

lemma writes_only_move_object:
  assumes a: "a \<in> A" and W: "''x'' \<in> W" "''y'' \<in> W" "''vx'' \<in> W" "''vy'' \<in> W"
  shows "writes_only A W h (move_object motion h a)"
proof -
  obtain px py pvx pvy where m: "motion a = (px, py, pvx, pvy)"
    by (cases "motion a")
  let ?h1 = "set_prop h a ''x'' (Num px)"
  let ?h2 = "set_prop ?h1 a ''y'' (Num py)"
  let ?h3 = "set_prop ?h2 a ''vx'' (Num pvx)"
  let ?h4 = "set_prop ?h3 a ''vy'' (Num pvy)"
  have "writes_only A W h ?h1"
    using a W(1) by (rule writes_only_set_prop)
  moreover have "writes_only A W ?h1 ?h2"
    using a W(2) by (rule writes_only_set_prop)
  ultimately have "writes_only A W h ?h2"
    by (rule writes_only_trans)
  moreover have "writes_only A W ?h2 ?h3"
    using a W(3) by (rule writes_only_set_prop)
  ultimately have "writes_only A W h ?h3"
    by (rule writes_only_trans)
  moreover have "writes_only A W ?h3 ?h4"
    using a W(4) by (rule writes_only_set_prop)
  ultimately have "writes_only A W h ?h4"
    by (rule writes_only_trans)
  then show ?thesis
    by (simp add: move_object_def m)
qed

lemma writes_only_pin:
  assumes a: "a \<in> A" and W: "''fx'' \<in> W" "''fy'' \<in> W"
  shows "writes_only A W h (set_prop (set_prop h a ''fx'' v) a ''fy'' w)"
proof -
  have "writes_only A W h (set_prop h a ''fx'' v)"
    using a W(1) by (rule writes_only_set_prop)
  moreover have "writes_only A W (set_prop h a ''fx'' v) (set_prop (set_prop h a ''fx'' v) a ''fy'' w)"
    using a W(2) by (rule writes_only_set_prop)
  ultimately show ?thesis
    by (rule writes_only_trans)
qed

lemma writes_only_handle:
  assumes W: "''x'' \<in> W" "''y'' \<in> W" "''vx'' \<in> W" "''vy'' \<in> W" "''fx'' \<in> W" "''fy'' \<in> W"
  shows "writes_only (set (node_refs r)) W (heap r) (heap (heap_handle r ev))"
proof (cases ev)
  case (HeapTick motion)
  have "writes_only (set (node_refs r)) W (heap r) (foldl (move_object motion) (heap r) (node_refs r))"
    by (rule writes_only_foldl) (rule writes_only_move_object[OF _ W(1-4)])
  with HeapTick show ?thesis
    by (simp add: heap_tick_def)
next
  case (HeapDragStart i)
  then show ?thesis
    by (simp add: heap_dragstarted_def on_datum_def writes_only_pin[OF _ W(5,6)] writes_only_refl)
next
  case (HeapDragMove pointer i)
  then show ?thesis
    by (simp add: heap_dragged_def on_datum_def writes_only_pin[OF _ W(5,6)] writes_only_refl)
next
  case (HeapDragEnd i)
  then show ?thesis
    by (simp add: heap_dragended_def on_datum_def writes_only_pin[OF _ W(5,6)] writes_only_refl)
qed

lemma writes_only_inputs:
  assumes W: "''x'' \<in> W" "''y'' \<in> W" "''vx'' \<in> W" "''vy'' \<in> W" "''fx'' \<in> W" "''fy'' \<in> W"
  shows "writes_only (set (node_refs r)) W (heap r) (heap (foldl heap_handle r inputs))"
proof (induction inputs rule: rev_induct)
  case Nil
  show ?case by (simp add: writes_only_refl)
next
  case (snoc ev inputs)
  have "writes_only (set (node_refs (foldl heap_handle r inputs))) W
          (heap (foldl heap_handle r inputs))
          (heap (heap_handle (foldl heap_handle r inputs) ev))"
    using W by (rule writes_only_handle)
  with snoc.IH show ?case
    by (simp add: writes_only_trans)
qed

lemma get_prop_cong: "h' ! b = h ! a \<Longrightarrow> get_prop h' b p = get_prop h a p"
  by (simp add: get_prop_def)

lemma spread_all_copies:
  "spread_all h as = (h', bs) \<Longrightarrow> list_all (\<lambda>a. a < length h) as \<Longrightarrow> i < length as \<Longrightarrow>
     h' ! (bs ! i) = h ! (as ! i)"
proof (induction as arbitrary: h h' bs i)
  case Nil
  then show ?case by simp
next
  case (Cons a as)
  let ?h1 = "h @ [h ! a]"
  from Cons.prems(1) obtain bs' where
    rest: "spread_all ?h1 as = (h', bs')" and bs: "bs = length h # bs'"
    by (auto simp: spread_def split: prod.splits)
  from spread_all_fresh[OF rest] have tk: "take (Suc (length h)) h' = ?h1"
    by simp
  show ?case
  proof (cases i)
    case 0
    have "h' ! length h = take (Suc (length h)) h' ! length h"
      by simp
    also have "\<dots> = h ! a"
      by (simp only: tk) simp
    finally show ?thesis
      using 0 bs by simp
  next
    case (Suc k)
    from Cons.prems(2) have "list_all (\<lambda>a. a < length ?h1) as"
      by (auto simp: list_all_iff)
    moreover from Cons.prems(3) Suc have k: "k < length as"
      by simp
    ultimately have "h' ! (bs' ! k) = ?h1 ! (as ! k)"
      using Cons.IH[OF rest] by blast
    moreover from Cons.prems(2) k have "as ! k < length h"
      by (simp add: list_all_iff)
    ultimately show ?thesis
      using Suc bs by (simp add: nth_append)
  qed
qed

lemma copies_keep_props:
  assumes guard: "data_nodes \<noteq> [] \<and> svgRef_current"
    and range: "list_all (\<lambda>a. a < length h) (data_nodes @ data_links)"
    and Wn: "''index'' \<in> Wn" "''x'' \<in> Wn" "''y'' \<in> Wn" "''vx'' \<in> Wn" "''vy'' \<in> Wn"
            "''fx'' \<in> Wn" "''fy'' \<in> Wn"
    and Wl: "''index'' \<in> Wl" "''source'' \<in> Wl" "''target'' \<in> Wl"
  shows "i < length data_nodes \<Longrightarrow> p \<notin> Wn \<Longrightarrow>
           get_prop (heap (foldl heap_handle (snd (heap_effect lib svgRef_current h data_nodes data_links)) inputs))
             (node_refs (snd (heap_effect lib svgRef_current h data_nodes data_links)) ! i) p
           = get_prop h (data_nodes ! i) p"
    and "j < length data_links \<Longrightarrow> q \<notin> Wl \<Longrightarrow>
           get_prop (heap (foldl heap_handle (snd (heap_effect lib svgRef_current h data_nodes data_links)) inputs))
             (link_refs (snd (heap_effect lib svgRef_current h data_nodes data_links)) ! j) q
           = get_prop h (data_links ! j) q"
proof -
  obtain h1 ns where 1: "spread_all h data_nodes = (h1, ns)"
    by (cases "spread_all h data_nodes")
  obtain h2 ls where 2: "spread_all h1 data_links = (h2, ls)"
    by (cases "spread_all h1 data_links")
  let ?h3 = "heap_forceSimulation lib h2 ns"
  obtain threw h4 where 3: "heap_forceLink ?h3 ns ls = (threw, h4)"
    by (cases "heap_forceLink ?h3 ns ls")
  let ?start = "\<lparr>heap = h4, node_refs = ns, link_refs = ls\<rparr>"
  let ?run = "foldl heap_handle ?start inputs"
  from guard 1 2 3 have r0: "snd (heap_effect lib svgRef_current h data_nodes data_links) = ?start"
    by (simp add: heap_effect_def)
  note f1 = spread_all_fresh[OF 1] and f2 = spread_all_fresh[OF 2]
  from f1 have ns_lt: "\<And>a. a \<in> set ns \<Longrightarrow> a < length h1"
    by (simp add: list_all_iff)
  from f2 have ls_ge: "\<And>a. a \<in> set ls \<Longrightarrow> length h1 \<le> a"
    by (simp add: list_all_iff)
  from f1 have tk1: "take (length h) h1 = h" by simp
  from f2 have tk2: "take (length h1) h2 = h1" by simp
  have wA: "writes_only (set ns) Wn h2 ?h3"
    by (rule writes_only_forceSimulation[OF subset_refl Wn(1-5)])
  have "writes_only (set ls) Wl ?h3 (snd (heap_forceLink ?h3 ns ls))"
    by (rule writes_only_forceLink[OF subset_refl Wl])
  with 3 have wB: "writes_only (set ls) Wl ?h3 h4"
    by simp
  have "writes_only (set (node_refs ?start)) Wn (heap ?start) (heap ?run)"
    by (rule writes_only_inputs[OF Wn(2-7)])
  then have wC: "writes_only (set ns) Wn h4 (heap ?run)"
    by simp
  {
    assume i: "i < length data_nodes" and p: "p \<notin> Wn"
    let ?a = "ns ! i"
    from i f1 have mem: "?a \<in> set ns"
      by simp
    then have lt: "?a < length h1"
      by (rule ns_lt)
    with ls_ge have nl: "?a \<notin> set ls"
      by fastforce
    have "get_prop (heap ?run) ?a p = get_prop h4 ?a p"
      using wC p by (simp add: writes_onlyD)
    also have "\<dots> = get_prop ?h3 ?a p"
      using wB nl by (simp add: writes_onlyD)
    also have "\<dots> = get_prop h2 ?a p"
      using wA p by (simp add: writes_onlyD)
    also have "\<dots> = get_prop h (data_nodes ! i) p"
    proof (rule get_prop_cong)
      have "h2 ! ?a = take (length h1) h2 ! ?a"
        using lt by simp
      also have "\<dots> = h1 ! ?a"
        by (simp only: tk2)
      also have "\<dots> = h ! (data_nodes ! i)"
        using 1 _ i by (rule spread_all_copies) (use range in simp)
      finally show "h2 ! ?a = h ! (data_nodes ! i)" .
    qed
    finally show "get_prop (heap (foldl heap_handle (snd (heap_effect lib svgRef_current h data_nodes data_links)) inputs))
             (node_refs (snd (heap_effect lib svgRef_current h data_nodes data_links)) ! i) p
           = get_prop h (data_nodes ! i) p"
      by (simp only: r0) simp
  }
  {
    assume j: "j < length data_links" and q: "q \<notin> Wl"
    let ?l = "ls ! j"
    from j f2 have mem: "?l \<in> set ls"
      by simp
    then have "length h1 \<le> ?l"
      by (rule ls_ge)
    with ns_lt have nn: "?l \<notin> set ns"
      by fastforce
    have inr: "list_all (\<lambda>a. a < length h1) data_links"
      unfolding list_all_iff
    proof
      fix a assume "a \<in> set data_links"
      with range have "a < length h"
        by (simp add: list_all_iff)
      with f1 show "a < length h1"
        by simp
    qed
    have dl: "data_links ! j < length h"
      using range j by (simp add: list_all_iff)
    have "get_prop (heap ?run) ?l q = get_prop h4 ?l q"
      using wC nn by (simp add: writes_onlyD)
    also have "\<dots> = get_prop ?h3 ?l q"
      using wB q by (simp add: writes_onlyD)
    also have "\<dots> = get_prop h2 ?l q"
      using wA nn by (simp add: writes_onlyD)
    also have "\<dots> = get_prop h (data_links ! j) q"
    proof (rule get_prop_cong)
      have "h2 ! ?l = h1 ! (data_links ! j)"
        using 2 inr j by (rule spread_all_copies)
      also have "\<dots> = take (length h) h1 ! (data_links ! j)"
        using dl by simp
      also have "\<dots> = h ! (data_links ! j)"
        by (simp only: tk1)
      finally show "h2 ! ?l = h ! (data_links ! j)" .
    qed
    finally show "get_prop (heap (foldl heap_handle (snd (heap_effect lib svgRef_current h data_nodes data_links)) inputs))
             (link_refs (snd (heap_effect lib svgRef_current h data_nodes data_links)) ! j) q
           = get_prop h (data_links ! j) q"
      by (simp only: r0) simp
  }
qed

lemma caller_run_link:
  "fst (heap_effect lib True caller_heap [0, 1] [2]) = False \<and>
   get_prop (heap (snd (heap_effect lib True caller_heap [0, 1] [2]))) 5 ''source'' = Ref 3 \<and>
   get_prop (heap (snd (heap_effect lib True caller_heap [0, 1] [2]))) 5 ''target'' = Ref 4"
  using spread_caller_nodes spread_caller_links
  by (simp add: heap_effect_def heap_forceSimulation_def heap_forceLink_def seed_object_def
      heap_find_def get_prop_def set_prop_def Map_get_def Map_new_def Map_has_def
      caller_heap_def enumerate_simps del: spread_all.simps split: prod.split)

lemma caller_heap_props:
  "length caller_heap = 3"
  "get_prop caller_heap 0 ''id'' = Str ''A''"
  "get_prop caller_heap 1 ''group'' = Str ''G2''"
  "get_prop caller_heap 2 ''relationship'' = Str ''to''"
  "get_prop caller_heap 2 ''source'' = Str ''A''"
  "get_prop caller_heap 0 ''x'' = Null"
  by (simp_all add: get_prop_def caller_heap_def Map_get_def)

text \<open>
  Claim C7. Every object that exists when the effect starts, the caller's node and link
  objects among them, has the same properties with the same values after the effect body
  and after any frames and drag events that follow: the effect and the simulation write
  only to records allocated by the two copies, one per node and one per link. Those records
  are copies of the caller's objects: when the caller's arrays refer to objects of the
  store, the \<open>i\<close>-th record of \<open>nodes\<close> reads, at every property other than the seven the
  simulation and the drag handlers write, what the caller's \<open>i\<close>-th node object reads (its
  \<open>id\<close>, \<open>group\<close> and \<open>val\<close> among them), and the \<open>j\<close>-th record of \<open>links\<close> reads, at every
  property other than the three the link force writes, what the caller's \<open>j\<close>-th link
  object reads (its \<open>relationship\<close> among them), throughout the run.
\<close>

theorem caller_objects_never_mutated:
  "take (length h)
     (heap (foldl heap_handle (snd (heap_effect lib svgRef_current h data_nodes data_links)) inputs)) = h \<and>
   list_all (\<lambda>a. length h \<le> a)
     (node_refs (foldl heap_handle (snd (heap_effect lib svgRef_current h data_nodes data_links)) inputs)
      @ link_refs (foldl heap_handle (snd (heap_effect lib svgRef_current h data_nodes data_links)) inputs)) \<and>
   (data_nodes \<noteq> [] \<and> svgRef_current \<longrightarrow>
      length (node_refs (snd (heap_effect lib svgRef_current h data_nodes data_links))) = length data_nodes \<and>
      length (link_refs (snd (heap_effect lib svgRef_current h data_nodes data_links))) = length data_links) \<and>
   (data_nodes \<noteq> [] \<and> svgRef_current \<and> list_all (\<lambda>a. a < length h) (data_nodes @ data_links) \<longrightarrow>
      (\<forall>i<length data_nodes. \<forall>p. p \<notin> {''index'', ''x'', ''y'', ''vx'', ''vy'', ''fx'', ''fy''} \<longrightarrow>
         get_prop (heap (foldl heap_handle (snd (heap_effect lib svgRef_current h data_nodes data_links)) inputs))
           (node_refs (foldl heap_handle (snd (heap_effect lib svgRef_current h data_nodes data_links)) inputs) ! i) p
         = get_prop h (data_nodes ! i) p) \<and>
      (\<forall>j<length data_links. \<forall>p. p \<notin> {''index'', ''source'', ''target''} \<longrightarrow>
         get_prop (heap (foldl heap_handle (snd (heap_effect lib svgRef_current h data_nodes data_links)) inputs))
           (link_refs (foldl heap_handle (snd (heap_effect lib svgRef_current h data_nodes data_links)) inputs) ! j) p
         = get_prop h (data_links ! j) p))"
proof -
  let ?Wn = "{''index'', ''x'', ''y'', ''vx'', ''vy'', ''fx'', ''fy''}"
  let ?Wl = "{''index'', ''source'', ''target''}"
  have "owned h (foldl heap_handle (snd (heap_effect lib svgRef_current h data_nodes data_links)) inputs)"
    by (intro owned_inputs owned_heap_effect)
  then have kept:
    "take (length h)
       (heap (foldl heap_handle (snd (heap_effect lib svgRef_current h data_nodes data_links)) inputs)) = h"
    and fresh:
    "list_all (\<lambda>a. length h \<le> a)
       (node_refs (foldl heap_handle (snd (heap_effect lib svgRef_current h data_nodes data_links)) inputs)
        @ link_refs (foldl heap_handle (snd (heap_effect lib svgRef_current h data_nodes data_links)) inputs))"
    by (auto simp: owned_def list_all_iff)
  note props = copies_keep_props[where Wn="?Wn" and Wl="?Wl" and lib=lib
      and svgRef_current=svgRef_current and h=h and data_nodes=data_nodes and data_links=data_links
      and inputs=inputs, simplified]
  from kept fresh copies_heap_effect[of data_nodes svgRef_current lib h data_links] props
  show ?thesis
    by (simp del: foldl.simps)
qed

theorem caller_objects_never_mutated_witness:
  "[0, 1] \<noteq> ([] :: nat list) \<and>
   list_all (\<lambda>a. a < length caller_heap) ([0, 1] @ [2]) \<and>
   take 3 (heap caller_run_dragged) = caller_heap \<and>
   node_refs caller_run_dragged = [3, 4] \<and> link_refs caller_run_dragged = [5] \<and>
   get_prop (heap caller_run_dragged) 3 ''id'' = Str ''A'' \<and>
   get_prop (heap caller_run_dragged) 4 ''group'' = Str ''G2'' \<and>
   get_prop (heap caller_run_dragged) 5 ''relationship'' = Str ''to'' \<and>
   get_prop (heap caller_run) 5 ''source'' = Ref 3 \<and>
   get_prop caller_heap 2 ''source'' = Str ''A'' \<and>
   get_prop (heap caller_run_dragged) 3 ''x'' = Num 50 \<and>
   get_prop caller_heap 0 ''x'' = Null"
proof -
  note run = caller_objects_never_mutated [where h=caller_heap and lib=d3_unforced
      and svgRef_current=True
      and data_nodes="[0, 1]" and data_links="[2]"
      and inputs="[HeapTick (\<lambda>a. (1, 2, 0, 0)), HeapDragStart 0, HeapDragMove (50, 60) 0,
                   HeapTick (\<lambda>a. (50, 60, 0, 0)), HeapDragEnd 0]",
      folded caller_run_def, folded caller_run_dragged_def]
  have refs: "node_refs caller_run_dragged = [3, 4]" "link_refs caller_run_dragged = [5]"
    using caller_run_refs by (simp_all add: caller_run_dragged_def del: foldl.simps)
  have range: "list_all (\<lambda>a. a < length caller_heap) ([0, 1] @ [2])"
    by (simp add: caller_heap_props)
  from run have kept: "take 3 (heap caller_run_dragged) = caller_heap"
    by (simp add: caller_heap_props)
  from run range have
    nodes: "\<forall>i<length [0::nat, 1]. \<forall>p. p \<notin> {''index'', ''x'', ''y'', ''vx'', ''vy'', ''fx'', ''fy''} \<longrightarrow>
       get_prop (heap caller_run_dragged) (node_refs caller_run_dragged ! i) p
         = get_prop caller_heap ([0, 1] ! i) p"
    and links: "\<forall>j<length [2::nat]. \<forall>p. p \<notin> {''index'', ''source'', ''target''} \<longrightarrow>
       get_prop (heap caller_run_dragged) (link_refs caller_run_dragged ! j) p
         = get_prop caller_heap ([2] ! j) p"
    by blast+
  from nodes[rule_format, of 0 "''id''"] refs
  have id: "get_prop (heap caller_run_dragged) 3 ''id'' = Str ''A''"
    by (simp add: caller_heap_props)
  from nodes[rule_format, of 1 "''group''"] refs caller_heap_props(3)
  have gr: "get_prop (heap caller_run_dragged) 4 ''group'' = Str ''G2''"
    by simp
  from links[rule_format, of 0 "''relationship''"] refs
  have rel: "get_prop (heap caller_run_dragged) 5 ''relationship'' = Str ''to''"
    by (simp add: caller_heap_props)
  have src: "get_prop (heap caller_run) 5 ''source'' = Ref 3"
    using caller_run_link[of d3_unforced] by (simp add: caller_run_def)
  from kept refs range id gr rel src caller_run_dragged_x caller_heap_props(5,6)
  show ?thesis
    by simp
qed

end
